theory Spec2Isabelle
  imports Complex_Main
begin

section \<open>Arrays, configuration and errors\<close>

text \<open>
  A two-dimensional NumPy array is modelled by the list of its rows.  Every array that
  NumPy can build is rectangular (\<open>rect\<close>); an array without rows has shape \<open>(0, 0)\<close>
  here.  Cell values are real numbers: the rounding of the 32- and 64-bit floats of the
  source is not part of the model.  The one non-finite value the model keeps is NaN,
  written \<open>None\<close>, in the two places where finite inputs produce it (a \<open>0 / 0\<close> in the
  slope factor, and the mean over an ensemble without members).
\<close>

type_synonym 'a array2 = "'a list list"
type_synonym grid = "real array2"
type_synonym fgrid = "real option array2"
type_synonym config = "string \<rightharpoonup> real"

text \<open>
  The errors a call can end in: operands of unequal shapes, a seed that
  \<open>np.random.seed\<close> rejects, a negative dimension passed to \<open>np.zeros\<close>, and, in
  the store model of the arrays further down, an address that holds no array of the kind
  read from it.
\<close>

datatype error =
  ShapeMismatch
  | SeedOutOfRange
  | NegativeDimensions
  | BadReference

definition nrows :: "'a array2 \<Rightarrow> nat" where
  "nrows a = length a"

definition ncols :: "'a array2 \<Rightarrow> nat" where
  "ncols a = (case a of [] \<Rightarrow> 0 | row # _ \<Rightarrow> length row)"

definition shape :: "'a array2 \<Rightarrow> nat \<times> nat" where
  "shape a = (nrows a, ncols a)"

definition rect :: "'a array2 \<Rightarrow> bool" where
  "rect a = list_all (\<lambda>row. length row = ncols a) a"

definition tabulate2 :: "nat \<Rightarrow> nat \<Rightarrow> (nat \<Rightarrow> nat \<Rightarrow> 'a) \<Rightarrow> 'a array2" where
  "tabulate2 h w f = map (\<lambda>r. map (\<lambda>c. f r c) [0..<w]) [0..<h]"

definition np_zeros :: "nat \<times> nat \<Rightarrow> grid" where
  "np_zeros sh = tabulate2 (fst sh) (snd sh) (\<lambda>r c. 0)"

definition np_clip :: "real \<Rightarrow> real \<Rightarrow> real \<Rightarrow> real" where
  "np_clip x lo hi = min (max x lo) hi"

definition np_maximum :: "grid \<Rightarrow> grid \<Rightarrow> grid" where
  "np_maximum a b = tabulate2 (nrows a) (ncols a) (\<lambda>r c. max (a ! r ! c) (b ! r ! c))"

text \<open>\<open>config.get(key, default)\<close> on a dictionary of numbers.\<close>

definition cfg_get :: "config \<Rightarrow> string \<Rightarrow> real \<Rightarrow> real" where
  "cfg_get cfg key dflt = (case cfg key of None \<Rightarrow> dflt | Some v \<Rightarrow> v)"

section \<open>baseline.py\<close>

subsection \<open>initialize_grid\<close>

text \<open>
  A hotspot is a row of the detections frame with its two coordinate columns.  The affine
  transform and rasterio's \<open>rowcol\<close> are not code of this program: \<open>rowcol\<close> is a
  parameter, and \<open>None\<close> is any exception it raises.  The whole loop body sits in
  \<open>try ... except Exception: continue\<close>, so a raising \<open>rowcol\<close> and an index outside
  the grid both leave the grid as it is.
\<close>

record hotspot =
  longitude :: real
  latitude :: real

type_synonym 't rowcol = "'t \<Rightarrow> real \<Rightarrow> real \<Rightarrow> (int \<times> int) option"

definition set_cell :: "grid \<Rightarrow> nat \<Rightarrow> nat \<Rightarrow> real \<Rightarrow> grid" where
  "set_cell g r c v = g[r := (g ! r)[c := v]]"

definition seed_hotspot ::
  "'t rowcol \<Rightarrow> 't \<Rightarrow> nat \<times> nat \<Rightarrow> real \<Rightarrow> grid \<Rightarrow> hotspot \<Rightarrow> grid" where
  "seed_hotspot rowcol transform grid_shape seed_strength g h =
     (case rowcol transform (longitude h) (latitude h) of
        None \<Rightarrow> g
      | Some (row, col) \<Rightarrow>
          if 0 \<le> row \<and> row < int (fst grid_shape) \<and> 0 \<le> col \<and> col < int (snd grid_shape)
          then set_cell g (nat row) (nat col) seed_strength
          else g)"

definition initialize_grid ::
  "'t rowcol \<Rightarrow> hotspot list \<Rightarrow> nat \<times> nat \<Rightarrow> 't \<Rightarrow> real \<Rightarrow> grid" where
  "initialize_grid rowcol hotspots_df grid_shape transform seed_strength =
     foldl (seed_hotspot rowcol transform grid_shape seed_strength)
       (np_zeros grid_shape) hotspots_df"

subsection \<open>compute_spread_potential\<close>

text \<open>
  The wind speed is divided by the literal \<open>20.0\<close>; the slope by the configured
  \<open>slope_max_deg\<close>.  NumPy does not raise on a zero divisor: a non-zero slope over zero is
  an infinity, which the clip turns into 1 or 0, and \<open>0 / 0\<close> is NaN, which the clip, the
  weighted sum and the final clip all pass on.
\<close>

definition wind_factor :: "real \<Rightarrow> real \<Rightarrow> real" where
  "wind_factor wu wv = np_clip (sqrt (wu ^ 2 + wv ^ 2) / 20) 0 1"

definition slope_factor :: "config \<Rightarrow> real \<Rightarrow> real option" where
  "slope_factor cfg s =
     (let m = cfg_get cfg ''slope_max_deg'' 45 in
      if m \<noteq> 0 then Some (np_clip (s / m) 0 1)
      else if 0 < s then Some 1
      else if s < 0 then Some 0
      else None)"

definition dryness_factor :: "real \<Rightarrow> real" where
  "dryness_factor rh = np_clip ((100 - rh) / 100) 0 1"

definition potential_cell :: "config \<Rightarrow> real \<Rightarrow> real \<Rightarrow> real \<Rightarrow> real \<Rightarrow> real option" where
  "potential_cell cfg wu wv s rh =
     (case slope_factor cfg s of
        None \<Rightarrow> None
      | Some sf \<Rightarrow>
          Some (np_clip
            (cfg_get cfg ''wind_weight'' (1/2) * wind_factor wu wv +
             cfg_get cfg ''slope_weight'' (3/10) * sf +
             cfg_get cfg ''dryness_weight'' (1/5) * dryness_factor rh) 0 1))"

text \<open>
  The four operands meet in elementwise operations.  Operands of unequal shapes are the
  error \<open>ShapeMismatch\<close>; NumPy's broadcasting of unequal but compatible shapes is not
  modelled.
\<close>

definition compute_spread_potential ::
  "grid \<Rightarrow> grid \<Rightarrow> grid \<Rightarrow> grid \<Rightarrow> config \<Rightarrow> error + fgrid" where
  "compute_spread_potential wind_u wind_v slope rh cfg =
     (if shape wind_v \<noteq> shape wind_u \<or> shape slope \<noteq> shape wind_u \<or> shape rh \<noteq> shape wind_u
      then Inl ShapeMismatch
      else Inr (tabulate2 (nrows wind_u) (ncols wind_u)
        (\<lambda>r c. potential_cell cfg (wind_u ! r ! c) (wind_v ! r ! c) (slope ! r ! c) (rh ! r ! c))))"

subsection \<open>propagate_spread\<close>

definition active_mask :: "grid \<Rightarrow> bool array2" where
  "active_mask current_grid = map (map (\<lambda>x. 0 < x)) current_grid"

definition structure_of :: "real \<Rightarrow> bool array2" where
  "structure_of neighbors =
     (if neighbors = 4
      then [[False, True, False],
            [True, True, True],
            [False, True, False]]
      else replicate 3 (replicate 3 True))"

text \<open>
  scipy's \<open>binary_dilation\<close> with its defaults (one iteration, centred origin, border
  outside the array taken as False): a cell of the result is set when some set element
  \<open>(i, j)\<close> of the 3x3 structure, shifted to the cell, lands on a set cell of the input.
\<close>

definition mask_at :: "bool array2 \<Rightarrow> int \<Rightarrow> int \<Rightarrow> bool" where
  "mask_at m r c =
     (0 \<le> r \<and> r < int (nrows m) \<and> 0 \<le> c \<and> c < int (ncols m) \<and> m ! nat r ! nat c)"

definition binary_dilation :: "bool array2 \<Rightarrow> bool array2 \<Rightarrow> bool array2" where
  "binary_dilation m st =
     tabulate2 (nrows m) (ncols m) (\<lambda>r c.
       list_ex (\<lambda>i. list_ex (\<lambda>j.
           st ! i ! j \<and> mask_at m (int r + 1 - int i) (int c + 1 - int j)) [0..<3]) [0..<3])"

definition exceeds :: "real option \<Rightarrow> real \<Rightarrow> bool" where
  "exceeds p threshold = (case p of None \<Rightarrow> False | Some v \<Rightarrow> threshold < v)"

definition can_spread_mask :: "grid \<Rightarrow> fgrid \<Rightarrow> real \<Rightarrow> real \<Rightarrow> bool array2" where
  "can_spread_mask current_grid spread_potential threshold neighbors =
     (let active = active_mask current_grid;
          neighbor = binary_dilation active (structure_of neighbors)
      in tabulate2 (nrows current_grid) (ncols current_grid) (\<lambda>r c.
           exceeds (spread_potential ! r ! c) threshold \<and> neighbor ! r ! c \<and> \<not> active ! r ! c))"

definition assign_masked :: "grid \<Rightarrow> bool array2 \<Rightarrow> fgrid \<Rightarrow> grid" where
  "assign_masked g sel src =
     tabulate2 (nrows g) (ncols g) (\<lambda>r c.
       if sel ! r ! c then (case src ! r ! c of Some v \<Rightarrow> v | None \<Rightarrow> g ! r ! c)
       else g ! r ! c)"

definition propagate_spread :: "grid \<Rightarrow> fgrid \<Rightarrow> real \<Rightarrow> real \<Rightarrow> error + grid" where
  "propagate_spread current_grid spread_potential threshold neighbors =
     (if shape spread_potential \<noteq> shape current_grid then Inl ShapeMismatch
      else Inr (assign_masked current_grid
        (can_spread_mask current_grid spread_potential threshold neighbors) spread_potential))"

subsection \<open>run_baseline_spread\<close>

text \<open>
  The time loop \<open>for t in range(n_timesteps)\<close>: \<open>range\<close> of a negative number is empty,
  so the loop runs \<open>nat n_timesteps\<close> times.
\<close>

fun time_evolution ::
  "nat \<Rightarrow> grid \<Rightarrow> grid \<Rightarrow> fgrid \<Rightarrow> real \<Rightarrow> real \<Rightarrow> error + grid \<times> grid" where
  "time_evolution 0 current_grid max_grid pot threshold neighbors = Inr (current_grid, max_grid)"
| "time_evolution (Suc n) current_grid max_grid pot threshold neighbors =
     (case propagate_spread current_grid pot threshold neighbors of
        Inl e \<Rightarrow> Inl e
      | Inr new_grid \<Rightarrow>
          time_evolution n new_grid (np_maximum max_grid new_grid) pot threshold neighbors)"

definition run_baseline_spread ::
  "'t rowcol \<Rightarrow> hotspot list \<Rightarrow> grid \<Rightarrow> grid \<Rightarrow> grid \<Rightarrow> grid \<Rightarrow> 't \<Rightarrow> config \<Rightarrow> int
     \<Rightarrow> error + grid \<times> grid" where
  "run_baseline_spread rowcol hotspots_df wind_u wind_v slope rh transform cfg n_timesteps =
     (let current_grid = initialize_grid rowcol hotspots_df (shape wind_u) transform
            (cfg_get cfg ''seed_strength'' 1);
          max_grid = current_grid
      in case compute_spread_potential wind_u wind_v slope rh cfg of
           Inl e \<Rightarrow> Inl e
         | Inr spread_potential \<Rightarrow>
             time_evolution (nat n_timesteps) current_grid max_grid spread_potential
               (cfg_get cfg ''spread_threshold'' (3/10)) (cfg_get cfg ''neighbors'' 8))"

text \<open>
  Two notions used to state properties of the time loop: the set of burned cells of a
  fire grid, and the grid that \<open>propagate_spread\<close> returns on operands of one shape,
  iterated.
\<close>

definition burned :: "grid \<Rightarrow> (nat \<times> nat) set" where
  "burned g = {(r, c). r < nrows g \<and> c < ncols g \<and> 0 < g ! r ! c}"

definition spread_step :: "grid \<Rightarrow> fgrid \<Rightarrow> real \<Rightarrow> real \<Rightarrow> grid" where
  "spread_step g pot thr nb = assign_masked g (can_spread_mask g pot thr nb) pot"

fun iterate_step :: "nat \<Rightarrow> grid \<Rightarrow> fgrid \<Rightarrow> real \<Rightarrow> real \<Rightarrow> grid" where
  "iterate_step 0 g pot thr nb = g"
| "iterate_step (Suc n) g pot thr nb = iterate_step n (spread_step g pot thr nb) pot thr nb"

section \<open>monte_carlo.py\<close>

subsection \<open>perturb_weather\<close>

text \<open>
  NumPy's global generator is state that every draw reads and advances, so it is passed
  explicitly.  The generator itself is not code of this program: \<open>seed_state\<close> is the
  state that \<open>np.random.seed\<close> installs for a seed, \<open>random_sample\<close> is one draw of the
  unit interval together with the next state.  \<open>np.random.seed\<close> raises ValueError
  unless the seed lies in \<open>[0, 2^32 - 1]\<close>.  \<open>np.random.uniform(low, high, shape)\<close>
  fills an array of that shape, in row-major order, with \<open>low + (high - low) * x\<close> for
  successive draws \<open>x\<close>.
\<close>

record 'g rng =
  seed_state :: "int \<Rightarrow> 'g"
  random_sample :: "'g \<Rightarrow> real \<times> 'g"

fun draw :: "'g rng \<Rightarrow> nat \<Rightarrow> 'g \<Rightarrow> real list \<times> 'g" where
  "draw gen 0 s = ([], s)"
| "draw gen (Suc n) s =
     (case random_sample gen s of (x, s1) \<Rightarrow>
        (case draw gen n s1 of (xs, s2) \<Rightarrow> (x # xs, s2)))"

definition np_random_uniform ::
  "'g rng \<Rightarrow> real \<Rightarrow> real \<Rightarrow> nat \<times> nat \<Rightarrow> 'g \<Rightarrow> grid \<times> 'g" where
  "np_random_uniform gen low high sh s =
     (case draw gen (fst sh * snd sh) s of (xs, s') \<Rightarrow>
        (tabulate2 (fst sh) (snd sh) (\<lambda>r c. low + (high - low) * xs ! (r * snd sh + c)), s'))"

definition perturb_field :: "'g rng \<Rightarrow> grid \<Rightarrow> real \<Rightarrow> 'g \<Rightarrow> grid \<times> 'g" where
  "perturb_field gen field pert s =
     (case np_random_uniform gen (- pert) pert (shape field) s of (u, s') \<Rightarrow>
        (tabulate2 (nrows field) (ncols field) (\<lambda>r c. field ! r ! c * (1 + u ! r ! c)), s'))"

definition perturb_weather ::
  "'g rng \<Rightarrow> grid \<Rightarrow> grid \<Rightarrow> grid \<Rightarrow> grid \<Rightarrow> config \<Rightarrow> int \<Rightarrow> 'g
     \<Rightarrow> error + (grid \<times> grid \<times> grid \<times> grid) \<times> 'g" where
  "perturb_weather gen wind_u wind_v temp rh cfg seed s0 =
     (if seed < 0 \<or> 2 ^ 32 \<le> seed then Inl SeedOutOfRange
      else
        let s1 = seed_state gen seed;
            wind_pert = cfg_get cfg ''wind_perturbation'' (1/5);
            temp_pert = cfg_get cfg ''temp_perturbation'' (1/20);
            rh_pert = cfg_get cfg ''rh_perturbation'' (1/10)
        in case perturb_field gen wind_u wind_pert s1 of (wind_u_pert, s2) \<Rightarrow>
           case perturb_field gen wind_v wind_pert s2 of (wind_v_pert, s3) \<Rightarrow>
           case perturb_field gen temp temp_pert s3 of (temp_pert_val, s4) \<Rightarrow>
           case perturb_field gen rh rh_pert s4 of (rh_pert_val, s5) \<Rightarrow>
             Inr ((wind_u_pert, wind_v_pert, temp_pert_val,
                   map (map (\<lambda>x. np_clip x 0 100)) rh_pert_val), s5))"

subsection \<open>run_monte_carlo_ensemble\<close>

text \<open>
  \<open>ensemble_results\<close> is the stack of member grids, created by \<open>np.zeros\<close> (which
  raises ValueError on a negative \<open>n_ensemble\<close>) and filled slot by slot.  The three
  reductions run over the member axis; over no members NumPy's mean and standard
  deviation warn and return NaN, they do not raise.  Logging is left out of the model;
  one log line takes the maximum of the probability grid, which NumPy refuses on a grid
  without cells, so for such a grid the model says more than the code does.
\<close>

fun ensemble_loop ::
  "'g rng \<Rightarrow> 't rowcol \<Rightarrow> hotspot list \<Rightarrow> grid \<Rightarrow> grid \<Rightarrow> grid \<Rightarrow> grid \<Rightarrow> grid \<Rightarrow> 't
     \<Rightarrow> config \<Rightarrow> config \<Rightarrow> int \<Rightarrow> int \<Rightarrow> nat list \<Rightarrow> grid list \<Rightarrow> 'g
     \<Rightarrow> error + grid list \<times> 'g" where
  "ensemble_loop gen rowcol hotspots_df wind_u wind_v temp slope rh transform
     model_config mc_config base_seed n_timesteps [] ensemble_results s = Inr (ensemble_results, s)"
| "ensemble_loop gen rowcol hotspots_df wind_u wind_v temp slope rh transform
     model_config mc_config base_seed n_timesteps (i # rest) ensemble_results s =
     (case perturb_weather gen wind_u wind_v temp rh mc_config (base_seed + int i) s of
        Inl e \<Rightarrow> Inl e
      | Inr ((wind_u_pert, wind_v_pert, temp_pert, rh_pert), s') \<Rightarrow>
          (case run_baseline_spread rowcol hotspots_df wind_u_pert wind_v_pert slope rh_pert
                  transform model_config n_timesteps of
             Inl e \<Rightarrow> Inl e
           | Inr (final_grid, max_grid) \<Rightarrow>
               ensemble_loop gen rowcol hotspots_df wind_u wind_v temp slope rh transform
                 model_config mc_config base_seed n_timesteps rest
                 (ensemble_results[i := max_grid]) s'))"

definition np_mean :: "real list \<Rightarrow> real option" where
  "np_mean xs = (if xs = [] then None else Some (sum_list xs / real (length xs)))"

definition np_std :: "real list \<Rightarrow> real option" where
  "np_std xs =
     (if xs = [] then None
      else let mu = sum_list xs / real (length xs)
           in Some (sqrt (sum_list (map (\<lambda>x. \<bar>x - mu\<bar> ^ 2) xs) / real (length xs))))"

definition along_axis0 ::
  "(real list \<Rightarrow> real option) \<Rightarrow> nat \<times> nat \<Rightarrow> grid list \<Rightarrow> fgrid" where
  "along_axis0 f sh stack = tabulate2 (fst sh) (snd sh) (\<lambda>r c. f (map (\<lambda>m. m ! r ! c) stack))"

definition indicator_positive :: "grid \<Rightarrow> grid" where
  "indicator_positive m = map (map (\<lambda>x. if 0 < x then 1 else 0)) m"

definition run_monte_carlo_ensemble ::
  "'g rng \<Rightarrow> 't rowcol \<Rightarrow> hotspot list \<Rightarrow> grid \<Rightarrow> grid \<Rightarrow> grid \<Rightarrow> grid \<Rightarrow> grid \<Rightarrow> 't
     \<Rightarrow> config \<Rightarrow> config \<Rightarrow> int \<Rightarrow> int \<Rightarrow> int \<Rightarrow> 'g
     \<Rightarrow> error + (fgrid \<times> fgrid \<times> fgrid) \<times> 'g" where
  "run_monte_carlo_ensemble gen rowcol hotspots_df wind_u wind_v temp slope rh transform
     model_config mc_config n_ensemble base_seed n_timesteps s =
     (if n_ensemble < 0 then Inl NegativeDimensions
      else
        let grid_shape = shape wind_u;
            zeros = replicate (nat n_ensemble) (np_zeros grid_shape)
        in case ensemble_loop gen rowcol hotspots_df wind_u wind_v temp slope rh transform
                  model_config mc_config base_seed n_timesteps [0..<nat n_ensemble] zeros s of
             Inl e \<Rightarrow> Inl e
           | Inr (ensemble_results, s') \<Rightarrow>
               Inr ((along_axis0 np_mean grid_shape (map indicator_positive ensemble_results),
                     along_axis0 np_mean grid_shape ensemble_results,
                     along_axis0 np_std grid_shape ensemble_results), s'))"

section \<open>Example inputs\<close>

text \<open>
  A 3x3 grid seeded in one corner, and a potential field whose middle row lets fire
  through in its last column only.
\<close>

definition maze_grid :: grid where
  "maze_grid = [[1, 0, 0], [0, 0, 0], [0, 0, 0]]"

definition maze_potential :: fgrid where
  "maze_potential =
     [[Some (1/2), Some (1/2), Some (1/2)],
      [Some (1/10), Some (1/10), Some (1/2)],
      [Some (1/2), Some (1/2), Some (1/2)]]"

text \<open>
  An example of a transform with its \<open>rowcol\<close> (square cells of the given width and
  height, failing on a degenerate cell size), and an example of a generator.
\<close>

definition example_rowcol :: "(real \<times> real) rowcol" where
  "example_rowcol transform x y =
     (if fst transform = 0 \<or> snd transform = 0 then None
      else Some (\<lfloor>y / snd transform\<rfloor>, \<lfloor>x / fst transform\<rfloor>))"

definition example_gen :: "nat rng" where
  "example_gen = \<lparr>seed_state = nat, random_sample = (\<lambda>n. (real (n mod 4) / 4, Suc n))\<rparr>"

text \<open>A potential grid whose finite cells lie in the unit interval.\<close>

definition unit_valued :: "fgrid \<Rightarrow> bool" where
  "unit_valued pot = (\<forall>r c v. r < nrows pot \<and> c < ncols pot \<and> pot ! r ! c = Some v \<longrightarrow> 0 \<le> v \<and> v \<le> 1)"

text \<open>
  The wind factor in the words of the specification (section 4.1), which reads the divisor
  from the option \<open>wind_norm_max\<close> (default 20); it stands beside \<open>wind_factor\<close>,
  the one of the code, for comparison.
\<close>

definition spec_wind_factor :: "config \<Rightarrow> real \<Rightarrow> real \<Rightarrow> real" where
  "spec_wind_factor cfg wu wv =
     np_clip (sqrt (wu ^ 2 + wv ^ 2) / cfg_get cfg ''wind_norm_max'' 20) 0 1"

text \<open>A configuration in which the potential is the wind factor alone.\<close>

definition wind_only_config :: config where
  "wind_only_config =
     [''wind_norm_max'' \<mapsto> 10, ''wind_weight'' \<mapsto> 1, ''slope_weight'' \<mapsto> 0,
      ''dryness_weight'' \<mapsto> 0]"


text \<open>
  For the scenario of a uniform field: two indices at most \<open>n\<close> apart, a potential
  grid that exceeds the threshold in every cell, and a generator whose draws lie in the
  half-open unit interval, as those of \<open>random_sample\<close> do.
\<close>

definition near :: "nat \<Rightarrow> nat \<Rightarrow> nat \<Rightarrow> bool" where
  "near n a b = (a \<le> b + n \<and> b \<le> a + n)"

definition all_exceed :: "fgrid \<Rightarrow> real \<Rightarrow> bool" where
  "all_exceed pot thr = (\<forall>r c. r < nrows pot \<and> c < ncols pot \<longrightarrow> exceeds (pot ! r ! c) thr)"

definition unit_draws :: "'g rng \<Rightarrow> bool" where
  "unit_draws gen = (\<forall>s. 0 \<le> fst (random_sample gen s) \<and> fst (random_sample gen s) < 1)"

text \<open>
  The inputs of the scenario: constant fields (\<open>np.full\<close>) and a model configuration
  that sets the threshold and the neighbourhood and leaves every other option at its
  default.
\<close>

definition np_full :: "nat \<times> nat \<Rightarrow> real \<Rightarrow> grid" where
  "np_full sh v = tabulate2 (fst sh) (snd sh) (\<lambda>r c. v)"

definition scenario_config :: config where
  "scenario_config = [''spread_threshold'' \<mapsto> 1/10, ''neighbors'' \<mapsto> 8]"

section \<open>The arrays as shared objects\<close>

text \<open>
  NumPy arrays are mutable objects passed by reference.  To state what a call leaves
  unchanged, the arrays live in a store, a list indexed by address; an allocation appends,
  so the new address is the length of the store and is not an address of the store
  before.  A stored array is NaN-free (\<open>Reals\<close>) or may hold NaN (\<open>Floats\<close>); a
  NaN-free array can be read where NaN is allowed.  The boolean masks of
  \<open>propagate_spread\<close> are temporaries that nothing writes after their creation and
  stay values.  \<open>unchanged h h'\<close> says that every array of the store \<open>h\<close> is at its
  address in \<open>h'\<close> with the same contents.
\<close>

datatype ndarray = Reals grid | Floats fgrid

type_synonym addr = nat
type_synonym store = "ndarray list"

definition alloc :: "store \<Rightarrow> ndarray \<Rightarrow> addr \<times> store" where
  "alloc h v = (length h, h @ [v])"

definition as_grid :: "store \<Rightarrow> addr \<Rightarrow> grid option" where
  "as_grid h a =
     (if a < length h then (case h ! a of Reals g \<Rightarrow> Some g | Floats p \<Rightarrow> None) else None)"

definition as_fgrid :: "store \<Rightarrow> addr \<Rightarrow> fgrid option" where
  "as_fgrid h a =
     (if a < length h
      then (case h ! a of Reals g \<Rightarrow> Some (map (map Some) g) | Floats p \<Rightarrow> Some p)
      else None)"

definition unchanged :: "store \<Rightarrow> store \<Rightarrow> bool" where
  "unchanged h h' = (take (length h) h' = h)"

text \<open>
  \<open>new_grid = current_grid.copy()\<close> allocates; \<open>new_grid[can_spread] =
  spread_potential[can_spread]\<close> writes in place, into the copy.
\<close>

definition masked_store :: "store \<Rightarrow> addr \<Rightarrow> bool array2 \<Rightarrow> fgrid \<Rightarrow> store" where
  "masked_store h a sel src =
     (case as_grid h a of
        Some g \<Rightarrow> h[a := Reals (assign_masked g sel src)]
      | None \<Rightarrow> h)"

definition propagate_spread_st ::
  "addr \<Rightarrow> addr \<Rightarrow> real \<Rightarrow> real \<Rightarrow> store \<Rightarrow> (error + addr) \<times> store" where
  "propagate_spread_st current_grid spread_potential threshold neighbors h =
     (case (as_grid h current_grid, as_fgrid h spread_potential) of
        (Some cur, Some pot) \<Rightarrow>
          if shape pot \<noteq> shape cur then (Inl ShapeMismatch, h)
          else
            (let can_spread = can_spread_mask cur pot threshold neighbors
             in case alloc h (Reals cur) of (new_grid, h1) \<Rightarrow>
                  (Inr new_grid, masked_store h1 new_grid can_spread pot))
      | _ \<Rightarrow> (Inl BadReference, h))"

fun time_evolution_st ::
  "nat \<Rightarrow> addr \<Rightarrow> addr \<Rightarrow> addr \<Rightarrow> real \<Rightarrow> real \<Rightarrow> store
     \<Rightarrow> (error + addr \<times> addr) \<times> store" where
  "time_evolution_st 0 current_grid max_grid pot threshold neighbors h =
     (Inr (current_grid, max_grid), h)"
| "time_evolution_st (Suc n) current_grid max_grid pot threshold neighbors h =
     (case propagate_spread_st current_grid pot threshold neighbors h of
        (Inl e, h1) \<Rightarrow> (Inl e, h1)
      | (Inr new_grid, h1) \<Rightarrow>
          (case (as_grid h1 max_grid, as_grid h1 new_grid) of
             (Some m, Some g) \<Rightarrow>
               (case alloc h1 (Reals (np_maximum m g)) of (new_max, h2) \<Rightarrow>
                  time_evolution_st n new_grid new_max pot threshold neighbors h2)
           | _ \<Rightarrow> (Inl BadReference, h1)))"

text \<open>
  \<open>initialize_grid\<close> allocates the grid of zeros and writes the seeds into it in place;
  \<open>max_grid = current_grid.copy()\<close>, the potential and every \<open>np.maximum\<close> are new
  arrays; the loop rebinds its two local names to the new addresses.
\<close>

definition seed_hotspot_st ::
  "'t rowcol \<Rightarrow> 't \<Rightarrow> nat \<times> nat \<Rightarrow> real \<Rightarrow> addr \<Rightarrow> store \<Rightarrow> hotspot \<Rightarrow> store" where
  "seed_hotspot_st rowcol transform grid_shape seed_strength a h hot =
     (case as_grid h a of
        Some g \<Rightarrow> h[a := Reals (seed_hotspot rowcol transform grid_shape seed_strength g hot)]
      | None \<Rightarrow> h)"

definition initialize_grid_st ::
  "'t rowcol \<Rightarrow> hotspot list \<Rightarrow> nat \<times> nat \<Rightarrow> 't \<Rightarrow> real \<Rightarrow> store \<Rightarrow> addr \<times> store" where
  "initialize_grid_st rowcol hotspots_df grid_shape transform seed_strength h =
     (case alloc h (Reals (np_zeros grid_shape)) of (a, h1) \<Rightarrow>
        (a, foldl (seed_hotspot_st rowcol transform grid_shape seed_strength a) h1 hotspots_df))"

definition run_baseline_spread_st ::
  "'t rowcol \<Rightarrow> hotspot list \<Rightarrow> addr \<Rightarrow> addr \<Rightarrow> addr \<Rightarrow> addr \<Rightarrow> 't \<Rightarrow> config \<Rightarrow> int \<Rightarrow> store
     \<Rightarrow> (error + addr \<times> addr) \<times> store" where
  "run_baseline_spread_st rowcol hotspots_df wind_u wind_v slope rh transform cfg n_timesteps h =
     (case (as_grid h wind_u, as_grid h wind_v, as_grid h slope, as_grid h rh) of
        (Some wu, Some wv, Some sl, Some rhg) \<Rightarrow>
          (case initialize_grid_st rowcol hotspots_df (shape wu) transform
                  (cfg_get cfg ''seed_strength'' 1) h of (current_grid, h1) \<Rightarrow>
           case as_grid h1 current_grid of
             None \<Rightarrow> (Inl BadReference, h1)
           | Some g \<Rightarrow>
               (case alloc h1 (Reals g) of (max_grid, h2) \<Rightarrow>
                case compute_spread_potential wu wv sl rhg cfg of
                  Inl e \<Rightarrow> (Inl e, h2)
                | Inr pot \<Rightarrow>
                    (case alloc h2 (Floats pot) of (spread_potential, h3) \<Rightarrow>
                       time_evolution_st (nat n_timesteps) current_grid max_grid spread_potential
                         (cfg_get cfg ''spread_threshold'' (3/10)) (cfg_get cfg ''neighbors'' 8) h3)))
      | _ \<Rightarrow> (Inl BadReference, h))"

definition example_store :: store where
  "example_store = [Reals maze_grid, Floats maze_potential, Reals maze_grid, Reals maze_grid]"

section \<open>Basic facts about arrays\<close>

lemma length_tabulate2 [simp]: "length (tabulate2 h w f) = h"
  by (simp add: tabulate2_def)

lemma nrows_tabulate2 [simp]: "nrows (tabulate2 h w f) = h"
  by (simp add: nrows_def)

lemma nth_tabulate2_row: "r < h \<Longrightarrow> tabulate2 h w f ! r = map (f r) [0..<w]"
  by (simp add: tabulate2_def)

lemma nth_tabulate2 [simp]: "r < h \<Longrightarrow> c < w \<Longrightarrow> tabulate2 h w f ! r ! c = f r c"
  by (simp add: nth_tabulate2_row)

lemma ncols_tabulate2 [simp]: "ncols (tabulate2 h w f) = (if h = 0 then 0 else w)"
  by (cases h) (simp_all add: ncols_def tabulate2_def upt_conv_Cons del: upt_Suc)

lemma rect_tabulate2 [simp]: "rect (tabulate2 h w f)"
  by (cases h) (simp_all add: rect_def list_all_iff ncols_def tabulate2_def upt_conv_Cons del: upt_Suc)

lemma ncols_0: "nrows a = 0 \<Longrightarrow> ncols a = 0"
  by (cases a) (simp_all add: nrows_def ncols_def)

lemma shape_tabulate2_self [simp]: "shape (tabulate2 (nrows a) (ncols a) f) = shape a"
  by (simp add: shape_def ncols_0)

lemma rect_row_length: "rect a \<Longrightarrow> r < nrows a \<Longrightarrow> length (a ! r) = ncols a"
  by (simp add: rect_def list_all_iff nrows_def)

lemma grid_eqI:
  assumes "rect a" "rect b" "shape a = shape b"
    and "\<And>r c. r < nrows a \<Longrightarrow> c < ncols a \<Longrightarrow> a ! r ! c = b ! r ! c"
  shows "a = b"
proof (rule nth_equalityI)
  show "length a = length b"
    using assms(3) by (simp add: shape_def nrows_def)
next
  fix r assume r: "r < length a"
  then have ra: "r < nrows a" and rb: "r < nrows b"
    using assms(3) by (simp_all add: shape_def nrows_def)
  have la: "length (a ! r) = ncols a" using assms(1) ra by (rule rect_row_length)
  have lb: "length (b ! r) = ncols a"
    using rect_row_length [OF assms(2) rb] assms(3) by (simp add: shape_def)
  show "a ! r = b ! r"
    by (rule nth_equalityI) (use la lb assms(4) ra in simp_all)
qed

section \<open>Facts about propagate_spread\<close>


lemma nrows_active_mask [simp]: "nrows (active_mask g) = nrows g"
  by (simp add: active_mask_def nrows_def)

lemma ncols_active_mask [simp]: "ncols (active_mask g) = ncols g"
  by (cases g) (simp_all add: active_mask_def ncols_def)

lemma rect_active_mask: "rect g \<Longrightarrow> rect (active_mask g)"
  unfolding rect_def list_all_iff
  by (cases g) (auto simp: active_mask_def ncols_def)

lemma active_mask_nth:
  "rect g \<Longrightarrow> r < nrows g \<Longrightarrow> c < ncols g \<Longrightarrow> active_mask g ! r ! c = (0 < g ! r ! c)"
  using rect_row_length [of g r] by (simp add: active_mask_def nrows_def)

lemma shape_assign_masked [simp]: "shape (assign_masked g sel src) = shape g"
  by (simp add: assign_masked_def)

lemma rect_assign_masked [simp]: "rect (assign_masked g sel src)"
  by (simp add: assign_masked_def)

lemma dims_of_shape: "shape a = shape b \<Longrightarrow> nrows a = nrows b \<and> ncols a = ncols b"
  by (simp add: shape_def)

lemma assign_masked_nth:
  "r < nrows g \<Longrightarrow> c < ncols g \<Longrightarrow>
   assign_masked g sel src ! r ! c =
     (if sel ! r ! c then (case src ! r ! c of Some v \<Rightarrow> v | None \<Rightarrow> g ! r ! c) else g ! r ! c)"
  by (simp add: assign_masked_def)

lemma can_spread_mask_nth:
  "r < nrows g \<Longrightarrow> c < ncols g \<Longrightarrow>
   can_spread_mask g pot thr nb ! r ! c =
     (exceeds (pot ! r ! c) thr \<and>
      binary_dilation (active_mask g) (structure_of nb) ! r ! c \<and> \<not> active_mask g ! r ! c)"
  by (simp add: can_spread_mask_def Let_def)

lemma can_spread_mask_cong:
  assumes "active_mask g = active_mask g'"
  shows "can_spread_mask g pot thr nb = can_spread_mask g' pot thr nb"
proof -
  have "nrows g = nrows g'" "ncols g = ncols g'"
    using nrows_active_mask [of g] ncols_active_mask [of g]
      nrows_active_mask [of g'] ncols_active_mask [of g'] assms by simp_all
  then show ?thesis
    using assms by (simp add: can_spread_mask_def)
qed

lemma propagate_spread_Inr:
  "shape pot = shape g \<Longrightarrow>
   propagate_spread g pot thr nb = Inr (assign_masked g (can_spread_mask g pot thr nb) pot)"
  by (simp add: propagate_spread_def)

lemma step_keeps_active:
  assumes "rect g" "r < nrows g" "c < ncols g" "0 < g ! r ! c"
  shows "assign_masked g (can_spread_mask g pot thr nb) pot ! r ! c = g ! r ! c"
  using assms by (simp add: assign_masked_nth can_spread_mask_nth active_mask_nth)


lemma burned_subset_cells: "burned g \<subseteq> {..<nrows g} \<times> {..<ncols g}"
  by (auto simp: burned_def)

lemma finite_burned: "finite (burned g)"
  by (rule finite_subset [OF burned_subset_cells]) simp

lemma card_burned_le: "card (burned g) \<le> nrows g * ncols g"
  using card_mono [OF _ burned_subset_cells, of g] by (simp add: card_cartesian_product)

lemma burned_all_cells:
  assumes "nrows g * ncols g \<le> card (burned g)" "r < nrows g" "c < ncols g"
  shows "0 < g ! r ! c"
proof -
  have "card (burned g) = card ({..<nrows g} \<times> {..<ncols g})"
    using assms(1) card_burned_le [of g] by (simp add: card_cartesian_product)
  then have "burned g = {..<nrows g} \<times> {..<ncols g}"
    using burned_subset_cells [of g] by (simp add: card_subset_eq)
  then have "(r, c) \<in> burned g"
    using assms(2,3) by simp
  then show ?thesis by (simp add: burned_def)
qed

lemma shape_spread_step [simp]: "shape (spread_step g pot thr nb) = shape g"
  by (simp add: spread_step_def)

lemma nrows_spread_step [simp]: "nrows (spread_step g pot thr nb) = nrows g"
  using shape_spread_step [of g pot thr nb] by (simp add: shape_def)

lemma ncols_spread_step [simp]: "ncols (spread_step g pot thr nb) = ncols g"
  using shape_spread_step [of g pot thr nb] by (simp add: shape_def)

lemma rect_spread_step [simp]: "rect (spread_step g pot thr nb)"
  by (simp add: spread_step_def)

lemma spread_step_active:
  "rect g \<Longrightarrow> r < nrows g \<Longrightarrow> c < ncols g \<Longrightarrow> 0 < g ! r ! c \<Longrightarrow>
   spread_step g pot thr nb ! r ! c = g ! r ! c"
  by (simp add: spread_step_def step_keeps_active)

lemma burned_spread_step: "rect g \<Longrightarrow> burned g \<subseteq> burned (spread_step g pot thr nb)"
  by (auto simp: burned_def spread_step_active)

lemma active_mask_eq_burned:
  assumes "rect g" "rect g'" "shape g = shape g'" "burned g = burned g'"
  shows "active_mask g = active_mask g'"
proof (rule grid_eqI)
  show "rect (active_mask g)" "rect (active_mask g')"
    using assms(1,2) by (simp_all add: rect_active_mask)
  show "shape (active_mask g) = shape (active_mask g')"
    using assms(3) by (simp add: shape_def)
next
  fix r c assume "r < nrows (active_mask g)" "c < ncols (active_mask g)"
  then have rc: "r < nrows g" "c < ncols g" "r < nrows g'" "c < ncols g'"
    using assms(3) by (simp_all add: shape_def)
  have "(r, c) \<in> burned g \<longleftrightarrow> (r, c) \<in> burned g'"
    using assms(4) by simp
  then show "active_mask g ! r ! c = active_mask g' ! r ! c"
    using rc assms(1,2) by (simp add: burned_def active_mask_nth)
qed

lemma spread_step_stable:
  assumes "rect g" "burned (spread_step g pot thr nb) = burned g"
  shows "spread_step (spread_step g pot thr nb) pot thr nb = spread_step g pot thr nb"
proof -
  have am: "active_mask (spread_step g pot thr nb) = active_mask g"
    by (rule active_mask_eq_burned) (use assms in simp_all)
  have cs: "can_spread_mask (spread_step g pot thr nb) pot thr nb = can_spread_mask g pot thr nb"
    by (rule can_spread_mask_cong [OF am])
  show ?thesis
  proof (rule grid_eqI)
    fix r c
    assume "r < nrows (spread_step (spread_step g pot thr nb) pot thr nb)"
      "c < ncols (spread_step (spread_step g pot thr nb) pot thr nb)"
    then have rc: "r < nrows g" "c < ncols g" by simp_all
    have "spread_step (spread_step g pot thr nb) pot thr nb ! r ! c =
      (if can_spread_mask g pot thr nb ! r ! c
       then (case pot ! r ! c of Some v \<Rightarrow> v | None \<Rightarrow> spread_step g pot thr nb ! r ! c)
       else spread_step g pot thr nb ! r ! c)"
      unfolding spread_step_def [of "spread_step g pot thr nb"] cs
      using rc by (simp add: assign_masked_nth)
    moreover have "spread_step g pot thr nb ! r ! c =
      (if can_spread_mask g pot thr nb ! r ! c
       then (case pot ! r ! c of Some v \<Rightarrow> v | None \<Rightarrow> g ! r ! c)
       else g ! r ! c)"
      using rc by (simp add: spread_step_def assign_masked_nth)
    ultimately show "spread_step (spread_step g pot thr nb) pot thr nb ! r ! c =
      spread_step g pot thr nb ! r ! c"
      by (simp split: option.splits)
  qed simp_all
qed

lemma spread_step_full:
  assumes "rect g" "nrows g * ncols g \<le> card (burned g)"
  shows "spread_step g pot thr nb = g"
proof (rule grid_eqI)
  fix r c assume "r < nrows (spread_step g pot thr nb)" "c < ncols (spread_step g pot thr nb)"
  then have rc: "r < nrows g" "c < ncols g" by simp_all
  then have "0 < g ! r ! c"
    using assms(2) by (simp add: burned_all_cells)
  then show "spread_step g pot thr nb ! r ! c = g ! r ! c"
    using assms(1) rc by (simp add: spread_step_active)
qed (use assms in simp_all)

lemma spread_step_grows:
  assumes "rect g" "spread_step (spread_step g pot thr nb) pot thr nb \<noteq> spread_step g pot thr nb"
  shows "card (burned g) < card (burned (spread_step g pot thr nb))"
proof -
  have "burned (spread_step g pot thr nb) \<noteq> burned g"
    using assms spread_step_stable by blast
  then have "burned g \<subset> burned (spread_step g pot thr nb)"
    using burned_spread_step [OF assms(1), of pot thr nb] by blast
  then show ?thesis
    by (simp add: psubset_card_mono finite_burned)
qed

lemma iterate_step_Suc_end:
  "iterate_step (Suc n) g pot thr nb = spread_step (iterate_step n g pot thr nb) pot thr nb"
  by (induction n arbitrary: g) simp_all

lemma rect_iterate_step: "rect g \<Longrightarrow> rect (iterate_step n g pot thr nb)"
  by (induction n arbitrary: g) simp_all

lemma shape_iterate_step [simp]: "shape (iterate_step n g pot thr nb) = shape g"
  by (induction n arbitrary: g) simp_all

lemma iterate_step_progress:
  assumes "rect g"
  shows "spread_step (iterate_step n g pot thr nb) pot thr nb = iterate_step n g pot thr nb
     \<or> n \<le> card (burned (iterate_step n g pot thr nb))"
proof (induction n)
  case 0
  then show ?case by simp
next
  case (Suc n)
  let ?a = "iterate_step n g pot thr nb"
  have ra: "rect ?a" using assms by (rule rect_iterate_step)
  have eq: "iterate_step (Suc n) g pot thr nb = spread_step ?a pot thr nb"
    by (rule iterate_step_Suc_end)
  show ?case
  proof (cases "spread_step (spread_step ?a pot thr nb) pot thr nb = spread_step ?a pot thr nb")
    case True
    then show ?thesis unfolding eq by simp
  next
    case False
    then have lt: "card (burned ?a) < card (burned (spread_step ?a pot thr nb))"
      using ra by (simp add: spread_step_grows)
    have "spread_step ?a pot thr nb \<noteq> ?a"
      using False by auto
    then have "n \<le> card (burned ?a)"
      using Suc.IH by simp
    then show ?thesis unfolding eq using lt by simp
  qed
qed

lemma iterate_step_fixed:
  assumes "rect g" "nrows g * ncols g \<le> n"
  shows "spread_step (iterate_step n g pot thr nb) pot thr nb = iterate_step n g pot thr nb"
proof -
  let ?a = "iterate_step n g pot thr nb"
  have ra: "rect ?a" using assms(1) by (rule rect_iterate_step)
  have dims: "nrows ?a = nrows g" "ncols ?a = ncols g"
    using shape_iterate_step [of n g pot thr nb] by (simp_all add: shape_def)
  from iterate_step_progress [OF assms(1), of n pot thr nb]
  show ?thesis
  proof
    assume "n \<le> card (burned ?a)"
    then have "nrows ?a * ncols ?a \<le> card (burned ?a)"
      using assms(2) dims by simp
    then show ?thesis using ra by (rule spread_step_full [rotated])
  qed
qed

lemma time_evolution_iterate:
  "shape pot = shape g \<Longrightarrow>
   \<exists>m. time_evolution n g mx pot thr nb = Inr (iterate_step n g pot thr nb, m)"
proof (induction n arbitrary: g mx)
  case 0
  then show ?case by simp
next
  case (Suc n)
  have "shape pot = shape (spread_step g pot thr nb)"
    using Suc.prems by simp
  from Suc.IH [OF this] show ?case
    using Suc.prems by (simp add: propagate_spread_def spread_step_def)
qed

section \<open>C4: convergence of the time loop\<close>

text \<open>
  The bound \<open>max(H, W)\<close> fails where cells of low potential force the fire around a
  wall.  On the 3x3 example the grid after three timesteps still changes under one more
  \<open>propagate_spread\<close>, with 8 neighbours and with 4.
\<close>

theorem convergence_counterexample:
  "nrows maze_grid = 3 \<and> ncols maze_grid = 3 \<and>
   time_evolution (max 3 3) maze_grid maze_grid maze_potential (3/10) 8 =
     Inr ([[1, 1/2, 1/2], [0, 0, 1/2], [0, 1/2, 1/2]],
          [[1, 1/2, 1/2], [0, 0, 1/2], [0, 1/2, 1/2]]) \<and>
   propagate_spread [[1, 1/2, 1/2], [0, 0, 1/2], [0, 1/2, 1/2]] maze_potential (3/10) 8 =
     Inr [[1, 1/2, 1/2], [0, 0, 1/2], [1/2, 1/2, 1/2]] \<and>
   propagate_spread [[1, 1/2, 1/2], [0, 0, 1/2], [0, 1/2, 1/2]] maze_potential (3/10) 8 \<noteq>
     Inr [[1, 1/2, 1/2], [0, 0, 1/2], [0, 1/2, 1/2]] \<and>
   time_evolution (max 3 3) maze_grid maze_grid maze_potential (3/10) 4 =
     Inr ([[1, 1/2, 1/2], [0, 0, 1/2], [0, 0, 0]],
          [[1, 1/2, 1/2], [0, 0, 1/2], [0, 0, 0]]) \<and>
   propagate_spread [[1, 1/2, 1/2], [0, 0, 1/2], [0, 0, 0]] maze_potential (3/10) 4 =
     Inr [[1, 1/2, 1/2], [0, 0, 1/2], [0, 0, 1/2]]"
  unfolding maze_grid_def maze_potential_def by code_simp

text \<open>
  Claim C4, amended.  For every rectangular fire grid of shape \<open>(H, W)\<close>, every
  potential grid of that shape, every threshold and every neighbours setting, the time
  loop run for \<open>H * W\<close> timesteps or more returns a grid that \<open>propagate_spread\<close>
  returns unchanged.
\<close>

theorem propagate_spread_converges:
  assumes "rect g" "shape pot = shape g" "nrows g * ncols g \<le> n"
  shows "\<exists>g' m. time_evolution n g mx pot thr nb = Inr (g', m) \<and>
    propagate_spread g' pot thr nb = Inr g'"
proof -
  let ?g' = "iterate_step n g pot thr nb"
  obtain m where run: "time_evolution n g mx pot thr nb = Inr (?g', m)"
    using time_evolution_iterate [OF assms(2)] by blast
  have "spread_step ?g' pot thr nb = ?g'"
    using assms(1,3) by (rule iterate_step_fixed)
  then have "propagate_spread ?g' pot thr nb = Inr ?g'"
    using assms(2) by (simp add: propagate_spread_def spread_step_def)
  with run show ?thesis by blast
qed

theorem propagate_spread_converges_witness:
  "rect maze_grid \<and> shape maze_potential = shape maze_grid \<and>
   nrows maze_grid * ncols maze_grid \<le> 9 \<and>
   (\<exists>g' m. time_evolution 9 maze_grid maze_grid maze_potential (3/10) 8 = Inr (g', m) \<and>
      propagate_spread g' maze_potential (3/10) 8 = Inr g')"
proof -
  have h1: "rect maze_grid"
    by (simp add: maze_grid_def rect_def ncols_def)
  have h2: "shape maze_potential = shape maze_grid"
    by (simp add: maze_grid_def maze_potential_def shape_def nrows_def ncols_def)
  have h3: "nrows maze_grid * ncols maze_grid \<le> 9"
    by (simp add: maze_grid_def nrows_def ncols_def)
  show ?thesis
    using h1 h2 h3 propagate_spread_converges [OF h1 h2 h3] by simp
qed

section \<open>Facts about seeding and the potential\<close>

lemma nrows_set_cell [simp]: "nrows (set_cell g r c v) = nrows g"
  by (simp add: set_cell_def nrows_def)

lemma ncols_set_cell [simp]: "ncols (set_cell g r c v) = ncols g"
  by (cases g; cases r) (simp_all add: set_cell_def ncols_def)

lemma rect_set_cell: "rect g \<Longrightarrow> rect (set_cell g r c v)"
proof -
  assume g: "rect g"
  have "length row = ncols g" if "row \<in> set (g[r := (g ! r)[c := v]])" for row
  proof (cases "r < length g")
    case True
    from that have "row \<in> insert ((g ! r)[c := v]) (set g)"
      using set_update_subset_insert [of g r "(g ! r)[c := v]"] by blast
    then show ?thesis
      using g True by (auto simp: rect_def list_all_iff)
  next
    case False
    then show ?thesis
      using that g by (simp add: rect_def list_all_iff list_update_beyond)
  qed
  then show ?thesis
    unfolding rect_def list_all_iff ncols_set_cell by (simp add: set_cell_def)
qed


lemma seed_hotspot_shape:
  "nrows (seed_hotspot rowcol tr sh v g h) = nrows g \<and>
   ncols (seed_hotspot rowcol tr sh v g h) = ncols g"
  by (simp add: seed_hotspot_def split: option.splits prod.splits)

lemma rect_seed_hotspot: "rect g \<Longrightarrow> rect (seed_hotspot rowcol tr sh v g h)"
  by (simp add: seed_hotspot_def rect_set_cell split: option.splits prod.splits)

lemma foldl_seed_hotspot:
  "rect g \<Longrightarrow>
   rect (foldl (seed_hotspot rowcol tr sh v) g hs) \<and>
   nrows (foldl (seed_hotspot rowcol tr sh v) g hs) = nrows g \<and>
   ncols (foldl (seed_hotspot rowcol tr sh v) g hs) = ncols g"
  by (induction hs arbitrary: g) (simp_all add: rect_seed_hotspot seed_hotspot_shape)

lemma np_zeros_shape [simp]: "shape (np_zeros (shape a)) = shape a"
  by (simp add: np_zeros_def shape_def ncols_0)

lemma rect_initialize_grid: "rect (initialize_grid rowcol hs sh tr v)"
  by (simp add: initialize_grid_def foldl_seed_hotspot np_zeros_def)

lemma shape_initialize_grid: "shape (initialize_grid rowcol hs (shape a) tr v) = shape a"
proof -
  have "rect (np_zeros (shape a))" by (simp add: np_zeros_def)
  from foldl_seed_hotspot [OF this, of rowcol tr "shape a" v hs] show ?thesis
    using np_zeros_shape [of a] by (simp add: initialize_grid_def shape_def)
qed

lemma np_clip_unit: "0 \<le> np_clip x 0 1 \<and> np_clip x 0 1 \<le> 1"
  by (simp add: np_clip_def)

lemma potential_cell_unit: "potential_cell cfg wu wv s rh = Some v \<Longrightarrow> 0 \<le> v \<and> v \<le> 1"
  using np_clip_unit by (auto simp: potential_cell_def split: option.splits)

lemma compute_spread_potential_Inr:
  assumes "compute_spread_potential wu wv sl rh cfg = Inr pot"
  shows "shape pot = shape wu" "unit_valued pot"
proof -
  have pot: "pot = tabulate2 (nrows wu) (ncols wu)
      (\<lambda>r c. potential_cell cfg (wu ! r ! c) (wv ! r ! c) (sl ! r ! c) (rh ! r ! c))"
    using assms by (simp add: compute_spread_potential_def split: if_splits)
  show "shape pot = shape wu" unfolding pot by simp
  show "unit_valued pot"
    unfolding unit_valued_def pot
    by (auto dest: potential_cell_unit split: if_splits)
qed

lemma spread_step_ge:
  assumes "rect g" "shape pot = shape g" "unit_valued pot" "r < nrows g" "c < ncols g"
  shows "g ! r ! c \<le> spread_step g pot thr nb ! r ! c"
proof -
  have rc: "r < nrows pot" "c < ncols pot"
    using assms(2,4,5) by (simp_all add: shape_def)
  show ?thesis
  proof (cases "can_spread_mask g pot thr nb ! r ! c")
    case False
    then show ?thesis
      using assms(4,5) by (simp add: spread_step_def assign_masked_nth)
  next
    case True
    then have na: "g ! r ! c \<le> 0"
      using assms(1,4,5) by (simp add: can_spread_mask_nth active_mask_nth)
    show ?thesis
    proof (cases "pot ! r ! c")
      case None
      then show ?thesis
        using assms(4,5) by (simp add: spread_step_def assign_masked_nth)
    next
      case (Some v)
      then have "0 \<le> v" using assms(3) rc by (auto simp: unit_valued_def)
      then show ?thesis
        using True Some na assms(4,5) by (simp add: spread_step_def assign_masked_nth)
    qed
  qed
qed

lemma np_maximum_spread_step:
  assumes "rect g" "shape pot = shape g" "unit_valued pot"
  shows "np_maximum g (spread_step g pot thr nb) = spread_step g pot thr nb"
proof (rule grid_eqI)
  fix r c
  assume "r < nrows (np_maximum g (spread_step g pot thr nb))"
    "c < ncols (np_maximum g (spread_step g pot thr nb))"
  then have rc: "r < nrows g" "c < ncols g"
    by (simp_all add: np_maximum_def split: if_splits)
  then show "np_maximum g (spread_step g pot thr nb) ! r ! c = spread_step g pot thr nb ! r ! c"
    using spread_step_ge [OF assms rc, of thr nb] by (simp add: np_maximum_def max_def)
qed (simp_all add: np_maximum_def)

lemma time_evolution_max:
  assumes "rect g" "shape pot = shape g" "unit_valued pot"
  shows "time_evolution n g g pot thr nb =
    Inr (iterate_step n g pot thr nb, iterate_step n g pot thr nb)"
  using assms
proof (induction n arbitrary: g)
  case 0
  then show ?case by simp
next
  case (Suc n)
  have "time_evolution n (spread_step g pot thr nb) (spread_step g pot thr nb) pot thr nb =
    Inr (iterate_step n (spread_step g pot thr nb) pot thr nb,
         iterate_step n (spread_step g pot thr nb) pot thr nb)"
    by (rule Suc.IH) (use Suc.prems in simp_all)
  then show ?case
    using Suc.prems
    by (simp add: propagate_spread_def np_maximum_spread_step spread_step_def [symmetric])
qed

lemma run_baseline_spread_total:
  assumes "shape wind_v = shape wind_u" "shape slope = shape wind_u" "shape rh = shape wind_u"
  shows "\<exists>final_grid max_grid.
    run_baseline_spread rowcol hotspots_df wind_u wind_v slope rh transform cfg n_timesteps
      = Inr (final_grid, max_grid)"
proof -
  let ?g = "initialize_grid rowcol hotspots_df (shape wind_u) transform
     (cfg_get cfg ''seed_strength'' 1)"
  obtain pot where pot: "compute_spread_potential wind_u wind_v slope rh cfg = Inr pot"
    using assms by (simp add: compute_spread_potential_def)
  have sh: "shape pot = shape ?g"
    using compute_spread_potential_Inr(1) [OF pot] by (simp add: shape_initialize_grid)
  obtain m where "time_evolution (nat n_timesteps) ?g ?g pot
     (cfg_get cfg ''spread_threshold'' (3/10)) (cfg_get cfg ''neighbors'' 8) =
     Inr (iterate_step (nat n_timesteps) ?g pot
            (cfg_get cfg ''spread_threshold'' (3/10)) (cfg_get cfg ''neighbors'' 8), m)"
    using time_evolution_iterate [OF sh] by blast
  then show ?thesis
    using pot by (simp add: run_baseline_spread_def Let_def)
qed

section \<open>C7: the final state is the running maximum\<close>

text \<open>
  Claim C7.  Whenever \<open>run_baseline_spread\<close> returns, for any detections, weather and
  terrain grids, transform, configuration and number of timesteps (negative ones
  included), the final fire grid and the running elementwise maximum \<open>max_grid\<close> that
  it returns are the same grid.
\<close>

theorem final_state_equals_running_max:
  assumes "run_baseline_spread rowcol hotspots_df wind_u wind_v slope rh transform cfg n_timesteps
     = Inr (final_grid, max_grid)"
  shows "final_grid = max_grid"
proof -
  let ?g = "initialize_grid rowcol hotspots_df (shape wind_u) transform
     (cfg_get cfg ''seed_strength'' 1)"
  obtain pot where pot: "compute_spread_potential wind_u wind_v slope rh cfg = Inr pot"
    using assms by (cases "compute_spread_potential wind_u wind_v slope rh cfg")
      (simp_all add: run_baseline_spread_def)
  have sh: "shape pot = shape ?g"
    using compute_spread_potential_Inr(1) [OF pot] by (simp add: shape_initialize_grid)
  have "time_evolution (nat n_timesteps) ?g ?g pot
     (cfg_get cfg ''spread_threshold'' (3/10)) (cfg_get cfg ''neighbors'' 8) =
     Inr (final_grid, max_grid)"
    using assms pot by (simp add: run_baseline_spread_def Let_def)
  moreover have "time_evolution (nat n_timesteps) ?g ?g pot
     (cfg_get cfg ''spread_threshold'' (3/10)) (cfg_get cfg ''neighbors'' 8) =
     Inr (iterate_step (nat n_timesteps) ?g pot
            (cfg_get cfg ''spread_threshold'' (3/10)) (cfg_get cfg ''neighbors'' 8),
          iterate_step (nat n_timesteps) ?g pot
            (cfg_get cfg ''spread_threshold'' (3/10)) (cfg_get cfg ''neighbors'' 8))"
    by (rule time_evolution_max [OF rect_initialize_grid sh compute_spread_potential_Inr(2) [OF pot]])
  ultimately have "Inr (final_grid, max_grid) =
     (Inr (iterate_step (nat n_timesteps) ?g pot
            (cfg_get cfg ''spread_threshold'' (3/10)) (cfg_get cfg ''neighbors'' 8),
          iterate_step (nat n_timesteps) ?g pot
            (cfg_get cfg ''spread_threshold'' (3/10)) (cfg_get cfg ''neighbors'' 8))
       :: error + grid \<times> grid)"
    by (rule trans [OF sym])
  then show ?thesis by simp
qed

theorem final_state_equals_running_max_witness:
  "\<exists>final_grid max_grid.
     run_baseline_spread example_rowcol [\<lparr>longitude = 3/2, latitude = 1/2\<rparr>]
       [[5, 5, 5]] [[0, 0, 0]] [[10, 10, 10]] [[40, 40, 40]] (1, 1) Map.empty 2
       = Inr (final_grid, max_grid) \<and> final_grid = max_grid"
proof -
  obtain final_grid max_grid where run:
    "run_baseline_spread example_rowcol [\<lparr>longitude = 3/2, latitude = 1/2\<rparr>]
       [[5, 5, 5]] [[0, 0, 0]] [[10, 10, 10]] [[40, 40, 40]] (1, 1) Map.empty 2
       = Inr (final_grid, max_grid)"
  proof -
    have h: "shape [[0, 0, 0 :: real]] = shape [[5, 5, 5 :: real]]"
      "shape [[10, 10, 10 :: real]] = shape [[5, 5, 5 :: real]]"
      "shape [[40, 40, 40 :: real]] = shape [[5, 5, 5 :: real]]"
      by (simp_all add: shape_def nrows_def ncols_def)
    have "\<exists>final_grid max_grid.
      run_baseline_spread example_rowcol [\<lparr>longitude = 3/2, latitude = 1/2\<rparr>]
       [[5, 5, 5]] [[0, 0, 0]] [[10, 10, 10]] [[40, 40, 40]] (1, 1) Map.empty 2
       = Inr (final_grid, max_grid)"
      by (rule run_baseline_spread_total [OF h])
    then show ?thesis using that by blast
  qed
  from final_state_equals_running_max [OF run] run show ?thesis by blast
qed

section \<open>C8: the wind normalisation\<close>

text \<open>
  The spec's wind factor divides by the option \<open>wind_norm_max\<close>.  The code divides by
  the literal 20 and never reads that option: with \<open>wind_norm_max = 10\<close> and a wind of
  5 m/s the spec's factor is 1/2, the code's factor and the resulting potential are 1/4.
\<close>

theorem wind_norm_max_counterexample:
  "spec_wind_factor wind_only_config 5 0 = 1/2 \<and>
   wind_factor 5 0 = 1/4 \<and>
   compute_spread_potential [[5]] [[0]] [[0]] [[100]] wind_only_config = Inr [[Some (1/4)]]"
  by (simp add: spec_wind_factor_def wind_only_config_def cfg_get_def np_clip_def wind_factor_def
      compute_spread_potential_def shape_def nrows_def ncols_def tabulate2_def potential_cell_def
      slope_factor_def dryness_factor_def)

text \<open>
  Claim C8, amended.  The wind factor entering the spread potential is
  \<open>clip(sqrt(wind_u^2 + wind_v^2) / 20, 0, 1)\<close> for every configuration: setting
  \<open>wind_norm_max\<close> changes neither a cell's potential nor the potential grid, and the
  potential is the clipped weighted sum built on that factor (NaN where the slope factor
  is NaN).
\<close>

theorem wind_factor_fixed_divisor:
  "wind_factor wu wv = np_clip (sqrt (wu ^ 2 + wv ^ 2) / 20) 0 1 \<and>
   potential_cell (cfg(''wind_norm_max'' \<mapsto> c)) wu wv s rh = potential_cell cfg wu wv s rh \<and>
   compute_spread_potential wind_u wind_v slope rh_grid (cfg(''wind_norm_max'' \<mapsto> c)) =
     compute_spread_potential wind_u wind_v slope rh_grid cfg \<and>
   (case slope_factor cfg s of
      None \<Rightarrow> potential_cell cfg wu wv s rh = None
    | Some sf \<Rightarrow> potential_cell cfg wu wv s rh =
        Some (np_clip (cfg_get cfg ''wind_weight'' (1/2) * np_clip (sqrt (wu ^ 2 + wv ^ 2) / 20) 0 1 +
                       cfg_get cfg ''slope_weight'' (3/10) * sf +
                       cfg_get cfg ''dryness_weight'' (1/5) * dryness_factor rh) 0 1))"
proof -
  have sf: "slope_factor (cfg(''wind_norm_max'' \<mapsto> c)) = slope_factor cfg"
    by (intro ext) (simp add: slope_factor_def cfg_get_def)
  have pc: "potential_cell (cfg(''wind_norm_max'' \<mapsto> c)) = potential_cell cfg"
    by (intro ext) (simp add: potential_cell_def sf cfg_get_def split: option.splits)
  show ?thesis
    by (simp add: pc compute_spread_potential_def)
      (simp add: potential_cell_def wind_factor_def split: option.splits)
qed

theorem wind_factor_fixed_divisor_witness:
  "wind_factor 5 0 = np_clip (sqrt (5 ^ 2 + 0 ^ 2) / 20) 0 1 \<and>
   potential_cell (Map.empty(''wind_norm_max'' \<mapsto> 10)) 5 0 10 40 = potential_cell Map.empty 5 0 10 40 \<and>
   compute_spread_potential [[5]] [[0]] [[10]] [[40]] (Map.empty(''wind_norm_max'' \<mapsto> 10)) =
     compute_spread_potential [[5]] [[0]] [[10]] [[40]] Map.empty"
  using wind_factor_fixed_divisor [where wu = 5 and wv = 0 and cfg = Map.empty and c = 10
      and s = 10 and rh = 40 and wind_u = "[[5]]" and wind_v = "[[0]]" and slope = "[[10]]"
      and rh_grid = "[[40]]"]
  by blast

section \<open>C9: detections outside the grid\<close>

text \<open>
  Claim C9.  A detection whose \<open>rowcol\<close> raises, or whose cell index lies outside
  \<open>[0, H) x [0, W)\<close>, leaves the grid it is seeded into unchanged, and
  \<open>initialize_grid\<close> (a total function: nothing escapes the loop body) returns the
  grid it returns without that detection, whatever detections come before and after it.
\<close>

theorem skipped_detection:
  assumes "case rowcol transform (longitude h) (latitude h) of
      None \<Rightarrow> True
    | Some (row, col) \<Rightarrow>
        \<not> (0 \<le> row \<and> row < int (fst grid_shape) \<and> 0 \<le> col \<and> col < int (snd grid_shape))"
  shows "seed_hotspot rowcol transform grid_shape seed_strength g h = g \<and>
    initialize_grid rowcol (before @ h # after) grid_shape transform seed_strength =
      initialize_grid rowcol (before @ after) grid_shape transform seed_strength"
proof -
  have skip: "seed_hotspot rowcol transform grid_shape seed_strength g h = g" for g
    using assms by (auto simp: seed_hotspot_def split: option.splits)
  then show ?thesis
    by (simp add: initialize_grid_def)
qed

theorem skipped_detection_witness:
  "initialize_grid example_rowcol
      [\<lparr>longitude = 1/2, latitude = 1/2\<rparr>, \<lparr>longitude = 7/2, latitude = 1/2\<rparr>,
       \<lparr>longitude = 3/2, latitude = 1/2\<rparr>] (1, 2) (1, 1) 1 =
   initialize_grid example_rowcol
      [\<lparr>longitude = 1/2, latitude = 1/2\<rparr>, \<lparr>longitude = 3/2, latitude = 1/2\<rparr>] (1, 2) (1, 1) 1 \<and>
   initialize_grid example_rowcol
      [\<lparr>longitude = 1/2, latitude = 1/2\<rparr>, \<lparr>longitude = 3/2, latitude = 1/2\<rparr>] (1, 2) (1, 1) 1
     = [[1, 1]] \<and>
   initialize_grid example_rowcol
      [\<lparr>longitude = 1/2, latitude = 1/2\<rparr>, \<lparr>longitude = 3/2, latitude = 1/2\<rparr>] (1, 2) (0, 1) 1 =
   initialize_grid example_rowcol [\<lparr>longitude = 1/2, latitude = 1/2\<rparr>] (1, 2) (0, 1) 1"
proof -
  have val: "initialize_grid example_rowcol
      [\<lparr>longitude = 1/2, latitude = 1/2\<rparr>, \<lparr>longitude = 3/2, latitude = 1/2\<rparr>] (1, 2) (1, 1) 1
     = [[1, 1]]"
    by (simp add: initialize_grid_def seed_hotspot_def example_rowcol_def np_zeros_def
        tabulate2_def set_cell_def upt_conv_Cons)
  have far: "initialize_grid example_rowcol
      ([\<lparr>longitude = 1/2, latitude = 1/2\<rparr>] @ \<lparr>longitude = 7/2, latitude = 1/2\<rparr> #
       [\<lparr>longitude = 3/2, latitude = 1/2\<rparr>]) (1, 2) (1, 1) 1 =
    initialize_grid example_rowcol
      ([\<lparr>longitude = 1/2, latitude = 1/2\<rparr>] @ [\<lparr>longitude = 3/2, latitude = 1/2\<rparr>])
      (1, 2) (1, 1) 1"
    using skipped_detection [where rowcol = example_rowcol and transform = "(1, 1)"
        and h = "\<lparr>longitude = 7/2, latitude = 1/2\<rparr>" and grid_shape = "(1, 2)"
        and seed_strength = 1 and before = "[\<lparr>longitude = 1/2, latitude = 1/2\<rparr>]"
        and after = "[\<lparr>longitude = 3/2, latitude = 1/2\<rparr>]"]
    by (simp add: example_rowcol_def)
  have bad: "initialize_grid example_rowcol
      ([\<lparr>longitude = 1/2, latitude = 1/2\<rparr>] @ \<lparr>longitude = 3/2, latitude = 1/2\<rparr> # [])
      (1, 2) (0, 1) 1 =
    initialize_grid example_rowcol ([\<lparr>longitude = 1/2, latitude = 1/2\<rparr>] @ []) (1, 2) (0, 1) 1"
    using skipped_detection [where rowcol = example_rowcol and transform = "(0, 1)"
        and h = "\<lparr>longitude = 3/2, latitude = 1/2\<rparr>" and grid_shape = "(1, 2)"
        and seed_strength = 1 and before = "[\<lparr>longitude = 1/2, latitude = 1/2\<rparr>]"
        and after = "[]"]
    by (simp add: example_rowcol_def)
  show ?thesis
    using far bad val by simp
qed

section \<open>C1: determinism of the ensemble\<close>

lemma ensemble_loop_state_independent:
  "map_sum id fst (ensemble_loop gen rowcol hs wu wv t sl rh tr mcfg ccfg base nt is res s) =
   map_sum id fst (ensemble_loop gen rowcol hs wu wv t sl rh tr mcfg ccfg base nt is res s')"
proof (cases "is")
  case Nil
  then show ?thesis by simp
next
  case (Cons i rest)
  have "perturb_weather gen wu wv t rh ccfg (base + int i) s =
    perturb_weather gen wu wv t rh ccfg (base + int i) s'"
    by (simp add: perturb_weather_def)
  then show ?thesis
    unfolding Cons by simp
qed

text \<open>
  Claim C1.  The outcome of \<open>run_monte_carlo_ensemble\<close> (the three grids, or the
  error) is a function of its arguments alone: it does not depend on the state in which
  the call finds the global generator, because every member reseeds the generator before
  its first draw.  So two invocations on the same inputs, \<open>base_seed\<close> and
  \<open>n_ensemble\<close>, the second starting in whatever state the first one left, return the
  same probability, mean intensity and uncertainty grids.
\<close>

theorem ensemble_deterministic:
  "map_sum id fst
     (run_monte_carlo_ensemble gen rowcol hotspots_df wind_u wind_v temp slope rh transform
        model_config mc_config n_ensemble base_seed n_timesteps s) =
   map_sum id fst
     (run_monte_carlo_ensemble gen rowcol hotspots_df wind_u wind_v temp slope rh transform
        model_config mc_config n_ensemble base_seed n_timesteps s')"
proof -
  let ?loop = "\<lambda>s. ensemble_loop gen rowcol hotspots_df wind_u wind_v temp slope rh transform
     model_config mc_config base_seed n_timesteps [0..<nat n_ensemble]
     (replicate (nat n_ensemble) (np_zeros (shape wind_u))) s"
  have "map_sum id fst (?loop s) = map_sum id fst (?loop s')"
    by (rule ensemble_loop_state_independent)
  then show ?thesis
    by (cases "?loop s"; cases "?loop s'")
      (auto simp: run_monte_carlo_ensemble_def Let_def)
qed

section \<open>A one-cell example, evaluated\<close>











section \<open>C6: violated preconditions\<close>






section \<open>C5: bounds of the ensemble outputs\<close>


lemma set_cell_nth:
  assumes "rect g" "r < nrows g" "c < ncols g"
  shows "set_cell g r' c' v ! r ! c = (if r = r' \<and> c = c' then v else g ! r ! c)"
proof -
  have "length (g ! r) = ncols g" using assms(1,2) by (rule rect_row_length)
  then show ?thesis
    using assms(2,3) by (cases "r = r'") (auto simp: set_cell_def nrows_def nth_list_update)
qed







lemma perturb_field_shape: "shape (fst (perturb_field gen field pert s)) = shape field"
  by (simp add: perturb_field_def split: prod.splits)






lemma indicator_positive_nth:
  "rect m \<Longrightarrow> r < nrows m \<Longrightarrow> c < ncols m \<Longrightarrow>
   indicator_positive m ! r ! c = (if 0 < m ! r ! c then 1 else 0)"
  using rect_row_length [of m r] by (simp add: indicator_positive_def nrows_def)




section \<open>C2: the scenario of a uniform field\<close>

lemma list_ex_upt: "list_ex P [0..<n] = (\<exists>i<n. P i)"
  by (auto simp: list_ex_iff)

lemma structure_of_full: "nb \<noteq> 4 \<Longrightarrow> i < 3 \<Longrightarrow> j < 3 \<Longrightarrow> structure_of nb ! i ! j"
  by (simp add: structure_of_def)

lemma binary_dilation_nth:
  "r < nrows m \<Longrightarrow> c < ncols m \<Longrightarrow>
   binary_dilation m st ! r ! c =
     (\<exists>i<3. \<exists>j<3. st ! i ! j \<and> mask_at m (int r + 1 - int i) (int c + 1 - int j))"
  by (simp add: binary_dilation_def list_ex_upt)

lemma binary_dilation_full_nth:
  assumes "nb \<noteq> 4" "r < nrows m" "c < ncols m"
  shows "binary_dilation m (structure_of nb) ! r ! c =
    (\<exists>r' c'. r' < nrows m \<and> c' < ncols m \<and> m ! r' ! c' \<and> near 1 r r' \<and> near 1 c c')"
    (is "?lhs = ?rhs")
proof
  assume ?lhs
  then obtain i j where ij: "i < 3" "j < 3"
    and at: "mask_at m (int r + 1 - int i) (int c + 1 - int j)"
    using assms(2,3) by (auto simp: binary_dilation_nth)
  let ?r' = "nat (int r + 1 - int i)" and ?c' = "nat (int c + 1 - int j)"
  have "?r' < nrows m" "?c' < ncols m"
    using at unfolding mask_at_def by linarith+
  moreover have "m ! ?r' ! ?c'"
    using at by (simp add: mask_at_def)
  moreover have "near 1 r ?r'" "near 1 c ?c'"
    using at ij unfolding mask_at_def near_def by linarith+
  ultimately show ?rhs by blast
next
  assume ?rhs
  then obtain r' c' where rc: "r' < nrows m" "c' < ncols m" "m ! r' ! c'"
    "near 1 r r'" "near 1 c c'" by blast
  define i where "i = r + 1 - r'"
  define j where "j = c + 1 - c'"
  have ij: "i < 3" "j < 3" "int r + 1 - int i = int r'" "int c + 1 - int j = int c'"
    using rc(4,5) unfolding i_def j_def near_def by auto
  have "structure_of nb ! i ! j \<and> mask_at m (int r + 1 - int i) (int c + 1 - int j)"
    using ij rc(1,2,3) assms(1) by (simp add: structure_of_full mask_at_def)
  then have "\<exists>i<3. \<exists>j<3. structure_of nb ! i ! j \<and>
      mask_at m (int r + 1 - int i) (int c + 1 - int j)"
    using ij(1,2) by blast
  then show ?lhs
    using assms(2,3) by (simp add: binary_dilation_nth)
qed

lemma active_mask_burned:
  assumes "rect g"
  shows "(r < nrows (active_mask g) \<and> c < ncols (active_mask g) \<and> active_mask g ! r ! c)
     = ((r, c) \<in> burned g)"
  using assms by (auto simp: burned_def active_mask_nth)

lemma burned_spread_step_full:
  assumes "rect g" "shape pot = shape g" "all_exceed pot thr" "0 \<le> thr" "nb \<noteq> 4"
  shows "burned (spread_step g pot thr nb) =
    {(r, c). r < nrows g \<and> c < ncols g \<and>
       (\<exists>r' c'. (r', c') \<in> burned g \<and> near 1 r r' \<and> near 1 c c')}"
proof -
  have dims: "nrows pot = nrows g" "ncols pot = ncols g"
    using assms(2) by (simp_all add: shape_def)
  have "0 < spread_step g pot thr nb ! r ! c \<longleftrightarrow>
      (\<exists>r' c'. (r', c') \<in> burned g \<and> near 1 r r' \<and> near 1 c c')"
    if rc: "r < nrows g" "c < ncols g" for r c
  proof -
    have ex: "exceeds (pot ! r ! c) thr"
      using assms(3) rc dims by (simp add: all_exceed_def)
    then obtain v where v: "pot ! r ! c = Some v" "thr < v"
      by (auto simp: exceeds_def split: option.splits)
    have "binary_dilation (active_mask g) (structure_of nb) ! r ! c =
      (\<exists>r' c'. (r' < nrows (active_mask g) \<and> c' < ncols (active_mask g) \<and>
          active_mask g ! r' ! c') \<and> near 1 r r' \<and> near 1 c c')"
      using rc assms(5) by (simp add: binary_dilation_full_nth)
    then have dil: "binary_dilation (active_mask g) (structure_of nb) ! r ! c =
      (\<exists>r' c'. (r', c') \<in> burned g \<and> near 1 r r' \<and> near 1 c c')"
      unfolding active_mask_burned [OF assms(1)] .
    show ?thesis
    proof (cases "0 < g ! r ! c")
      case True
      then have "(r, c) \<in> burned g \<and> near 1 r r \<and> near 1 c c"
        using rc by (simp add: burned_def near_def)
      then show ?thesis
        using True rc assms(1) by (auto simp: spread_step_active)
    next
      case False
      then show ?thesis
        using rc assms(1,4) v ex dil
        by (auto simp: spread_step_def assign_masked_nth can_spread_mask_nth active_mask_nth)
    qed
  qed
  then show ?thesis
    by (auto simp: burned_def)
qed

lemma near_Suc:
  "near (Suc n) a b \<longleftrightarrow> (\<exists>a'. near 1 a a' \<and> near n a' b \<and> (a' \<le> max a b))"
proof
  assume w: "near (Suc n) a b"
  show "\<exists>a'. near 1 a a' \<and> near n a' b \<and> a' \<le> max a b"
  proof (cases "a < b")
    case True
    with w show ?thesis by (intro exI [of _ "Suc a"]) (auto simp: near_def)
  next
    case False
    show ?thesis
    proof (cases "a = b")
      case True
      then show ?thesis by (intro exI [of _ a]) (auto simp: near_def)
    next
      case False
      with \<open>\<not> a < b\<close> w show ?thesis by (intro exI [of _ "a - 1"]) (auto simp: near_def)
    qed
  qed
next
  assume "\<exists>a'. near 1 a a' \<and> near n a' b \<and> a' \<le> max a b"
  then show "near (Suc n) a b" by (auto simp: near_def)
qed

lemma burned_iterate_single:
  assumes "rect g" "shape pot = shape g" "all_exceed pot thr" "0 \<le> thr" "nb \<noteq> 4"
    and "burned g = {(r0, c0)}"
  shows "burned (iterate_step n g pot thr nb) =
    {(r, c). r < nrows g \<and> c < ncols g \<and> near n r r0 \<and> near n c c0}"
proof (induction n)
  case 0
  have "(r0, c0) \<in> burned g" by (simp add: assms(6))
  then have "r0 < nrows g \<and> c0 < ncols g"
    by (simp add: burned_def)
  then show ?case
    unfolding iterate_step.simps assms(6) by (auto simp: near_def)
next
  case (Suc n)
  let ?a = "iterate_step n g pot thr nb"
  have a: "rect ?a" "shape pot = shape ?a" "nrows ?a = nrows g" "ncols ?a = ncols g"
    using assms(1,2) shape_iterate_step [of n g pot thr nb]
    by (simp_all add: rect_iterate_step shape_def)
  have "(r0, c0) \<in> burned g" by (simp add: assms(6))
  then have in0: "r0 < nrows g" "c0 < ncols g"
    by (simp_all add: burned_def)
  have "burned (iterate_step (Suc n) g pot thr nb) =
    {(r, c). r < nrows g \<and> c < ncols g \<and>
       (\<exists>r' c'. (r', c') \<in> burned ?a \<and> near 1 r r' \<and> near 1 c c')}"
    unfolding iterate_step_Suc_end
    using burned_spread_step_full [OF a(1,2) assms(3,4,5)] a(3,4) by simp
  also have "\<dots> = {(r, c). r < nrows g \<and> c < ncols g \<and> near (Suc n) r r0 \<and> near (Suc n) c c0}"
  proof -
    have "(\<exists>r' c'. (r', c') \<in> burned ?a \<and> near 1 r r' \<and> near 1 c c') \<longleftrightarrow>
        near (Suc n) r r0 \<and> near (Suc n) c c0"
      if rc: "r < nrows g" "c < ncols g" for r c
    proof
      assume "\<exists>r' c'. (r', c') \<in> burned ?a \<and> near 1 r r' \<and> near 1 c c'"
      then show "near (Suc n) r r0 \<and> near (Suc n) c c0"
        unfolding Suc.IH by (auto simp: near_def)
    next
      assume w: "near (Suc n) r r0 \<and> near (Suc n) c c0"
      then obtain r' c' where r': "near 1 r r'" "near n r' r0" "r' \<le> max r r0"
        and c': "near 1 c c'" "near n c' c0" "c' \<le> max c c0"
        unfolding near_Suc by blast
      have "r' < nrows g" "c' < ncols g"
        using r'(3) c'(3) rc in0 by auto
      then have "(r', c') \<in> burned ?a"
        unfolding Suc.IH using r'(2) c'(2) by simp
      then show "\<exists>r' c'. (r', c') \<in> burned ?a \<and> near 1 r r' \<and> near 1 c c'"
        using r'(1) c'(1) by blast
    qed
    then show ?thesis by auto
  qed
  finally show ?case .
qed


lemma draw_length: "length (fst (draw gen n s)) = n"
proof (induction n arbitrary: s)
  case 0
  then show ?case by simp
next
  case (Suc n)
  obtain y s1 where y: "random_sample gen s = (y, s1)" by (cases "random_sample gen s")
  obtain ys s2 where ys: "draw gen n s1 = (ys, s2)" by (cases "draw gen n s1")
  have "length ys = n" using Suc.IH [of s1] ys by simp
  then show ?case by (simp add: y ys)
qed

lemma draw_range:
  "unit_draws gen \<Longrightarrow> x \<in> set (fst (draw gen n s)) \<Longrightarrow> 0 \<le> x \<and> x < 1"
proof (induction n arbitrary: s)
  case 0
  then show ?case by simp
next
  case (Suc n)
  obtain y s1 where y: "random_sample gen s = (y, s1)" by (cases "random_sample gen s")
  have "0 \<le> y \<and> y < 1"
    using Suc.prems(1) y unfolding unit_draws_def by (metis fst_conv)
  moreover have "x = y \<or> x \<in> set (fst (draw gen n s1))"
    using Suc.prems(2) y by (auto split: prod.splits)
  ultimately show ?case
    using Suc.IH [OF Suc.prems(1)] by blast
qed

lemma cell_index: "r < h \<Longrightarrow> c < w \<Longrightarrow> r * w + c < h * (w :: nat)"
proof -
  assume "r < h" "c < w"
  then have "r * w + c < Suc r * w" by simp
  also have "\<dots> \<le> h * w" using \<open>r < h\<close> by (intro mult_le_mono1) simp
  finally show ?thesis .
qed

lemma perturb_field_nth:
  assumes "unit_draws gen" "0 \<le> p" "r < nrows f" "c < ncols f"
  shows "\<exists>u. - p \<le> u \<and> u \<le> p \<and> fst (perturb_field gen f p s) ! r ! c = f ! r ! c * (1 + u)"
proof -
  let ?xs = "fst (draw gen (nrows f * ncols f) s)"
  let ?x = "?xs ! (r * ncols f + c)"
  have "r * ncols f + c < length ?xs"
    using assms(3,4) by (simp add: draw_length cell_index)
  then have "?x \<in> set ?xs" by (rule nth_mem)
  then have x: "0 \<le> ?x \<and> ?x < 1"
    using assms(1) by (rule draw_range [rotated])
  have cell: "fst (perturb_field gen f p s) ! r ! c = f ! r ! c * (1 + (- p + (p - - p) * ?x))"
    using assms(3,4)
    by (simp add: perturb_field_def np_random_uniform_def shape_def split: prod.splits)
  have "- p \<le> - p + (p - - p) * ?x"
    using x assms(2) by simp
  moreover have "- p + (p - - p) * ?x \<le> p"
  proof -
    have "(2 * p) * ?x \<le> (2 * p) * 1"
      using x assms(2) by (intro mult_left_mono) simp_all
    then show ?thesis by simp
  qed
  ultimately show ?thesis using cell by blast
qed

lemma shape_map_map [simp]: "shape (map (map f) a) = shape a"
  by (cases a) (simp_all add: shape_def nrows_def ncols_def)

lemma perturb_weather_Inr:
  assumes "perturb_weather gen wu wv t rh cfg seed s = Inr ((wu', wv', t', rh'), s')"
  shows "\<exists>sa sb sc.
    wu' = fst (perturb_field gen wu (cfg_get cfg ''wind_perturbation'' (1/5)) sa) \<and>
    wv' = fst (perturb_field gen wv (cfg_get cfg ''wind_perturbation'' (1/5)) sb) \<and>
    rh' = map (map (\<lambda>x. np_clip x 0 100))
            (fst (perturb_field gen rh (cfg_get cfg ''rh_perturbation'' (1/10)) sc))"
  using assms
  by (simp add: perturb_weather_def Let_def split: if_splits prod.splits) (metis fst_conv)

lemma perturb_weather_total:
  "0 \<le> seed \<Longrightarrow> seed < 2 ^ 32 \<Longrightarrow>
   \<exists>wu' wv' t' rh' s'. perturb_weather gen wu wv t rh cfg seed s = Inr ((wu', wv', t', rh'), s')"
  by (simp add: perturb_weather_def Let_def split: prod.splits)


lemma potential_cell_scenario:
  assumes "rh \<le> 44"
  shows "\<exists>v. potential_cell scenario_config wu wv 10 rh = Some v \<and> 1/10 < v"
proof -
  have sf: "slope_factor scenario_config 10 = Some (2/9)"
    by (simp add: slope_factor_def scenario_config_def cfg_get_def np_clip_def)
  have w: "0 \<le> wind_factor wu wv"
    by (simp add: wind_factor_def np_clip_def)
  have d: "14/25 \<le> dryness_factor rh"
    using assms by (simp add: dryness_factor_def np_clip_def)
  let ?x = "1/2 * wind_factor wu wv + 3/10 * (2/9) + 1/5 * dryness_factor rh"
  have "1/10 < ?x" using w d by simp
  then have "1/10 < np_clip ?x 0 1"
    by (simp add: np_clip_def)
  moreover have cw: "cfg_get scenario_config ''wind_weight'' (1/2) = 1/2"
    "cfg_get scenario_config ''slope_weight'' (3/10) = 3/10"
    "cfg_get scenario_config ''dryness_weight'' (1/5) = 1/5"
    by (simp_all add: scenario_config_def cfg_get_def)
  have "potential_cell scenario_config wu wv 10 rh = Some (np_clip ?x 0 1)"
    unfolding potential_cell_def sf cw by simp
  ultimately show ?thesis by blast
qed

lemma np_full_nth [simp]: "r < fst sh \<Longrightarrow> c < snd sh \<Longrightarrow> np_full sh v ! r ! c = v"
  by (simp add: np_full_def)

lemma shape_np_full: "0 < h \<Longrightarrow> shape (np_full (h, w) v) = (h, w)"
  by (simp add: np_full_def shape_def)

lemma burned_single_seed:
  assumes "rowcol tr (longitude h) (latitude h) = Some (int r0, int c0)"
    and "r0 < H" "c0 < W" "0 < v"
  shows "burned (initialize_grid rowcol [h] (H, W) tr v) = {(r0, c0)}"
proof -
  let ?z = "np_zeros (H, W)"
  have z: "rect ?z" "nrows ?z = H" "ncols ?z = W"
    using assms(2) by (simp_all add: np_zeros_def)
  have g: "initialize_grid rowcol [h] (H, W) tr v = set_cell ?z r0 c0 v"
    using assms(1,2,3) by (simp add: initialize_grid_def seed_hotspot_def)
  have "set_cell ?z r0 c0 v ! r ! c = (if r = r0 \<and> c = c0 then v else 0)"
    if "r < H" "c < W" for r c
    using that z by (simp add: set_cell_nth) (simp add: np_zeros_def)
  then show ?thesis
    unfolding g using assms(2,3,4) z by (auto simp: burned_def split: if_splits)
qed

lemma tabulate2_cong:
  "(\<And>r c. r < h \<Longrightarrow> c < w \<Longrightarrow> f r c = g r c) \<Longrightarrow> tabulate2 h w f = tabulate2 h w g"
  by (simp add: tabulate2_def)

lemma scenario_member:
  assumes gen: "unit_draws gen"
    and center: "rowcol transform (longitude h) (latitude h) = Some (5, 5)"
    and pw: "perturb_weather gen (np_full (10, 10) 5) (np_full (10, 10) 0) (np_full (10, 10) 295)
        (np_full (10, 10) 40) Map.empty 0 s = Inr ((wu', wv', t', rh'), s')"
  shows "\<exists>m. run_baseline_spread rowcol [h] wu' wv' (np_full (10, 10) 10) rh' transform
        scenario_config 3 = Inr (m, m) \<and>
      rect m \<and> shape m = (10, 10) \<and>
      burned m = {(r, c). r < 10 \<and> c < 10 \<and> near 3 r 5 \<and> near 3 c 5}"
proof -
  from perturb_weather_Inr [OF pw] obtain sa sb sc where
    wu': "wu' = fst (perturb_field gen (np_full (10, 10) 5) (1/5) sa)" and
    wv': "wv' = fst (perturb_field gen (np_full (10, 10) 0) (1/5) sb)" and
    rh': "rh' = map (map (\<lambda>x. np_clip x 0 100))
            (fst (perturb_field gen (np_full (10, 10) 40) (1/10) sc))"
    by (auto simp: cfg_get_def)
  have sh: "shape wu' = (10, 10)" "shape wv' = (10, 10)" "shape rh' = (10, 10)"
    "shape (np_full (10, 10) 10) = (10, 10)"
    by (simp_all add: wu' wv' rh' perturb_field_shape shape_np_full)
  have dims: "nrows wu' = 10" "ncols wu' = 10"
    using sh(1) by (simp_all add: shape_def)
  have rh_le: "rh' ! r ! c \<le> 44" if rc: "r < 10" "c < 10" for r c
  proof -
    let ?p = "fst (perturb_field gen (np_full (10, 10) 40) (1/10) sc)"
    have shp: "shape ?p = (10, 10)"
      by (simp add: perturb_field_shape shape_np_full)
    have "rect ?p" by (simp add: perturb_field_def split: prod.splits)
    then have len: "r < length ?p" "c < length (?p ! r)"
      using rc shp rect_row_length [of ?p r] by (simp_all add: shape_def nrows_def)
    have n: "r < nrows (np_full (10, 10) 40)" "c < ncols (np_full (10, 10) 40)"
      using rc shape_np_full [of 10 10 40] by (simp_all add: shape_def)
    obtain u where u: "u \<le> 1/10" "?p ! r ! c = np_full (10, 10) 40 ! r ! c * (1 + u)"
      using perturb_field_nth [OF gen _ n, of "1/10" sc] by auto
    have "?p ! r ! c \<le> 44" using u rc by simp
    then show ?thesis
      using len by (simp add: rh' np_clip_def)
  qed
  obtain pot where pot: "compute_spread_potential wu' wv' (np_full (10, 10) 10) rh' scenario_config
      = Inr pot"
    and pot_def: "pot = tabulate2 10 10 (\<lambda>r c.
        potential_cell scenario_config (wu' ! r ! c) (wv' ! r ! c)
          (np_full (10, 10) 10 ! r ! c) (rh' ! r ! c))"
    using sh by (simp add: compute_spread_potential_def dims)
  have "exceeds (pot ! r ! c) (1/10)" if rc: "r < 10" "c < 10" for r c
  proof -
    obtain v where "potential_cell scenario_config (wu' ! r ! c) (wv' ! r ! c) 10 (rh' ! r ! c)
        = Some v" "1/10 < v"
      using potential_cell_scenario [OF rh_le [OF rc]] by blast
    then show ?thesis
      using rc by (simp add: pot_def exceeds_def)
  qed
  then have ex: "all_exceed pot (1/10)"
    unfolding all_exceed_def by (simp add: pot_def split: if_splits)
  let ?g = "initialize_grid rowcol [h] (shape wu') transform (cfg_get scenario_config ''seed_strength'' 1)"
  have g: "rect ?g" "shape ?g = (10, 10)"
    using sh(1) shape_initialize_grid [of rowcol "[h]" wu'] by (simp_all add: rect_initialize_grid)
  have b0: "burned ?g = {(5, 5)}"
    unfolding sh(1) using burned_single_seed [of rowcol transform h 5 5 10 10] center
    by (simp add: scenario_config_def cfg_get_def)
  have psh: "shape pot = shape ?g"
    using compute_spread_potential_Inr(1) [OF pot] g(2) sh(1) by simp
  let ?m = "iterate_step 3 ?g pot (1/10) 8"
  have te: "time_evolution 3 ?g ?g pot (1/10) 8 = Inr (?m, ?m)"
    by (rule time_evolution_max [OF g(1) psh compute_spread_potential_Inr(2) [OF pot]])
  have run: "run_baseline_spread rowcol [h] wu' wv' (np_full (10, 10) 10) rh' transform
        scenario_config 3 = Inr (?m, ?m)"
    using te pot
    by (simp add: run_baseline_spread_def Let_def)
      (simp add: scenario_config_def cfg_get_def)
  have "burned ?m = {(r, c). r < nrows ?g \<and> c < ncols ?g \<and> near 3 r 5 \<and> near 3 c 5}"
    by (rule burned_iterate_single [OF g(1) psh ex _ _ b0]) simp_all
  then have bm: "burned ?m = {(r, c). r < 10 \<and> c < 10 \<and> near 3 r 5 \<and> near 3 c 5}"
    using g(2) by (simp add: shape_def)
  have "rect ?m" "shape ?m = (10, 10)"
    using g by (simp_all add: rect_iterate_step)
  with run bm show ?thesis by blast
qed


lemma np_mean_single [simp]: "np_mean [x] = Some x"
  by (simp add: np_mean_def)

lemma np_std_single [simp]: "np_std [x] = Some 0"
  by (simp add: np_std_def)

text \<open>
  Claim C2.  On a 10x10 grid with the constant fields \<open>wind_u = 5\<close>, \<open>wind_v = 0\<close>,
  \<open>temp = 295\<close>, \<open>rh = 40\<close>, \<open>slope = 10\<close>, one detection that \<open>rowcol\<close> places
  in the centre cell \<open>(5, 5)\<close>, three timesteps, 8 neighbours, threshold 0.1, one member,
  base seed 0 and default perturbations, \<open>run_monte_carlo_ensemble\<close> returns, for
  every generator with draws in \<open>[0, 1)\<close> and from every generator state: a probability
  grid that is 1 on the 7x7 block of rows and columns 2 to 8 around the seed and 0
  elsewhere, and an uncertainty grid that is 0 everywhere.
\<close>

theorem concrete_scenario:
  assumes gen: "unit_draws gen"
    and center: "rowcol transform (longitude h) (latitude h) = Some (5, 5)"
  shows "\<exists>mean_intensity s'.
    run_monte_carlo_ensemble gen rowcol [h]
      (np_full (10, 10) 5) (np_full (10, 10) 0) (np_full (10, 10) 295)
      (np_full (10, 10) 10) (np_full (10, 10) 40) transform
      scenario_config Map.empty 1 0 3 s =
    Inr ((tabulate2 10 10 (\<lambda>r c. Some (if 2 \<le> r \<and> r \<le> 8 \<and> 2 \<le> c \<and> c \<le> 8 then 1 else 0)),
          mean_intensity,
          tabulate2 10 10 (\<lambda>r c. Some 0)), s')"
proof -
  let ?wu = "np_full (10, 10) 5"
  obtain wu' wv' t' rh' s' where
    pw: "perturb_weather gen ?wu (np_full (10, 10) 0) (np_full (10, 10) 295)
        (np_full (10, 10) 40) Map.empty 0 s = Inr ((wu', wv', t', rh'), s')"
    using perturb_weather_total [of 0 gen ?wu "np_full (10, 10) 0" "np_full (10, 10) 295"
        "np_full (10, 10) 40" Map.empty s] by auto
  from scenario_member [where rowcol = rowcol and transform = transform and h = h,
      OF gen center pw] obtain m where
    run: "run_baseline_spread rowcol [h] wu' wv' (np_full (10, 10) 10) rh' transform
        scenario_config 3 = Inr (m, m)"
    and m: "rect m" "shape m = (10, 10)"
    and bm: "burned m = {(r, c). r < 10 \<and> c < 10 \<and> near 3 r 5 \<and> near 3 c 5}"
    by blast
  have dims: "nrows m = 10" "ncols m = 10"
    using m(2) by (simp_all add: shape_def)
  have shu: "shape ?wu = (10, 10)" by (simp add: shape_np_full)
  have loop: "ensemble_loop gen rowcol [h] ?wu (np_full (10, 10) 0) (np_full (10, 10) 295)
      (np_full (10, 10) 10) (np_full (10, 10) 40) transform scenario_config Map.empty 0 3
      [0] [np_zeros (10, 10)] s = Inr ([m], s')"
    using pw run by simp
  have pos: "0 < m ! r ! c \<longleftrightarrow> 2 \<le> r \<and> r \<le> 8 \<and> 2 \<le> c \<and> c \<le> 8"
    if rc: "r < 10" "c < 10" for r c
  proof -
    have "0 < m ! r ! c \<longleftrightarrow> (r, c) \<in> burned m"
      using rc dims by (simp add: burned_def)
    also have "\<dots> \<longleftrightarrow> 2 \<le> r \<and> r \<le> 8 \<and> 2 \<le> c \<and> c \<le> 8"
      unfolding bm using rc by (auto simp: near_def)
    finally show ?thesis .
  qed
  have prob: "along_axis0 np_mean (10, 10) [indicator_positive m] =
      tabulate2 10 10 (\<lambda>r c. Some (if 2 \<le> r \<and> r \<le> 8 \<and> 2 \<le> c \<and> c \<le> 8 then 1 else 0))"
    unfolding along_axis0_def fst_conv snd_conv
  proof (rule tabulate2_cong)
    fix r c :: nat assume rc: "r < 10" "c < 10"
    have "indicator_positive m ! r ! c = (if 0 < m ! r ! c then 1 else 0)"
      using m(1) rc dims by (simp add: indicator_positive_nth)
    then show "np_mean (map (\<lambda>m. m ! r ! c) [indicator_positive m]) =
        Some (if 2 \<le> r \<and> r \<le> 8 \<and> 2 \<le> c \<and> c \<le> 8 then 1 else 0)"
      using pos [OF rc] by simp
  qed
  have unc: "along_axis0 np_std (10, 10) [m] = tabulate2 10 10 (\<lambda>r c. Some 0)"
    by (simp add: along_axis0_def)
  have "run_monte_carlo_ensemble gen rowcol [h]
      ?wu (np_full (10, 10) 0) (np_full (10, 10) 295)
      (np_full (10, 10) 10) (np_full (10, 10) 40) transform
      scenario_config Map.empty 1 0 3 s =
    Inr ((tabulate2 10 10 (\<lambda>r c. Some (if 2 \<le> r \<and> r \<le> 8 \<and> 2 \<le> c \<and> c \<le> 8 then 1 else 0)),
          along_axis0 np_mean (10, 10) [m],
          tabulate2 10 10 (\<lambda>r c. Some 0)), s')"
  proof -
    have idx: "[0..<nat 1] = [0]" "replicate (nat 1) (np_zeros (10, 10)) = [np_zeros (10, 10)]"
      by simp_all
    show ?thesis
      unfolding run_monte_carlo_ensemble_def Let_def shu idx loop
      by (simp add: prob unc)
  qed
  then show ?thesis by blast
qed

theorem concrete_scenario_witness:
  "unit_draws example_gen \<and>
   example_rowcol (1, 1) (longitude \<lparr>longitude = 11/2, latitude = 11/2\<rparr>)
     (latitude \<lparr>longitude = 11/2, latitude = 11/2\<rparr>) = Some (5, 5) \<and>
   (\<exists>mean_intensity s'.
      run_monte_carlo_ensemble example_gen example_rowcol [\<lparr>longitude = 11/2, latitude = 11/2\<rparr>]
        (np_full (10, 10) 5) (np_full (10, 10) 0) (np_full (10, 10) 295)
        (np_full (10, 10) 10) (np_full (10, 10) 40) (1, 1)
        scenario_config Map.empty 1 0 3 0 =
      Inr ((tabulate2 10 10 (\<lambda>r c. Some (if 2 \<le> r \<and> r \<le> 8 \<and> 2 \<le> c \<and> c \<le> 8 then 1 else 0)),
            mean_intensity,
            tabulate2 10 10 (\<lambda>r c. Some 0)), s'))"
proof -
  have g: "unit_draws example_gen"
    by (simp add: unit_draws_def example_gen_def)
  have c: "example_rowcol (1, 1) (longitude \<lparr>longitude = 11/2, latitude = 11/2\<rparr>)
     (latitude \<lparr>longitude = 11/2, latitude = 11/2\<rparr>) = Some (5, 5)"
    by (simp add: example_rowcol_def)
  from concrete_scenario [where rowcol = example_rowcol and transform = "(1, 1)"
      and h = "\<lparr>longitude = 11/2, latitude = 11/2\<rparr>" and s = 0, OF g c] g c
  show ?thesis by blast
qed

section \<open>C10: the arguments are not mutated\<close>

lemma unchanged_refl [simp]: "unchanged h h"
  by (simp add: unchanged_def)

lemma unchanged_length: "unchanged h h' \<Longrightarrow> length h \<le> length h'"
proof -
  assume "unchanged h h'"
  then have "length (take (length h) h') = length h"
    by (simp add: unchanged_def)
  then show ?thesis by simp
qed

lemma unchanged_nth: "unchanged h h' \<Longrightarrow> a < length h \<Longrightarrow> h' ! a = h ! a"
  unfolding unchanged_def by (metis nth_take)

lemma unchanged_trans: "unchanged h h1 \<Longrightarrow> unchanged h1 h2 \<Longrightarrow> unchanged h h2"
proof -
  assume a: "unchanged h h1" "unchanged h1 h2"
  have "take (length h) (take (length h1) h2) = take (length h) h2"
    using unchanged_length [OF a(1)] by (simp add: min_absorb1)
  moreover have "take (length h1) h2 = h1" "take (length h) h1 = h"
    using a by (simp_all add: unchanged_def)
  ultimately show ?thesis by (simp add: unchanged_def)
qed

lemma unchanged_alloc: "alloc h v = (a, h') \<Longrightarrow> unchanged h h' \<and> a = length h \<and> h' ! a = v \<and> length h' = Suc (length h)"
  by (auto simp: alloc_def unchanged_def)

lemma unchanged_update: "unchanged h h' \<Longrightarrow> length h \<le> a \<Longrightarrow> unchanged h (h'[a := v])"
  by (simp add: unchanged_def)

lemma as_grid_unchanged: "unchanged h h' \<Longrightarrow> as_grid h a = Some g \<Longrightarrow> as_grid h' a = Some g"
  using unchanged_length [of h h'] unchanged_nth [of h h' a]
  by (auto simp: as_grid_def split: if_splits)

lemma as_fgrid_unchanged: "unchanged h h' \<Longrightarrow> as_fgrid h a = Some g \<Longrightarrow> as_fgrid h' a = Some g"
  using unchanged_length [of h h'] unchanged_nth [of h h' a]
  by (auto simp: as_fgrid_def split: if_splits)

lemma propagate_spread_st_frame:
  assumes "propagate_spread_st c p thr nb h = (res, h')"
  shows "unchanged h h' \<and>
    (case res of
       Inl e \<Rightarrow> h' = h
     | Inr new_ref \<Rightarrow> new_ref = length h \<and> length h' = Suc (length h) \<and>
         (\<exists>cur pot new. as_grid h c = Some cur \<and> as_fgrid h p = Some pot \<and>
            propagate_spread cur pot thr nb = Inr new \<and> as_grid h' new_ref = Some new))"
proof (cases "as_grid h c")
  case None
  then show ?thesis using assms by (auto simp: propagate_spread_st_def)
next
  case (Some cur)
  show ?thesis
  proof (cases "as_fgrid h p")
    case None
    then show ?thesis using assms Some by (auto simp: propagate_spread_st_def)
  next
    case (Some pot)
    show ?thesis
    proof (cases "shape pot = shape cur")
      case False
      then show ?thesis
        using assms Some \<open>as_grid h c = Some cur\<close> by (auto simp: propagate_spread_st_def)
    next
      case True
      let ?new = "assign_masked cur (can_spread_mask cur pot thr nb) pot"
      have res: "res = Inr (length h)" and h': "h' = (h @ [Reals cur])[length h := Reals ?new]"
        using assms Some \<open>as_grid h c = Some cur\<close> True
        by (auto simp: propagate_spread_st_def alloc_def masked_store_def as_grid_def Let_def)
      have "unchanged h h'" unfolding h' by (simp add: unchanged_def)
      moreover have "as_grid h' (length h) = Some ?new"
        unfolding h' by (simp add: as_grid_def)
      moreover have "propagate_spread cur pot thr nb = Inr ?new"
        using True by (simp add: propagate_spread_def)
      moreover have "length h' = Suc (length h)" unfolding h' by simp
      ultimately show ?thesis
        using res Some \<open>as_grid h c = Some cur\<close> by simp
    qed
  qed
qed

lemma as_grid_append_new [simp]: "as_grid (h @ [Reals g]) (length h) = Some g"
  by (simp add: as_grid_def)

lemma as_grid_append_old: "as_grid h a = Some g \<Longrightarrow> as_grid (h @ [v]) a = Some g"
  by (auto simp: as_grid_def nth_append split: if_splits)

lemma as_fgrid_append_old: "as_fgrid h a = Some g \<Longrightarrow> as_fgrid (h @ [v]) a = Some g"
  by (auto simp: as_fgrid_def nth_append split: if_splits)

lemma unchanged_append [simp]: "unchanged h (h @ xs)"
  by (simp add: unchanged_def)

lemma propagate_spread_st_eq:
  assumes "as_grid h c = Some cur" "as_fgrid h p = Some pot"
  shows "propagate_spread_st c p thr nb h =
    (case propagate_spread cur pot thr nb of
       Inl e \<Rightarrow> (Inl e, h)
     | Inr new \<Rightarrow> (Inr (length h), h @ [Reals new]))"
  using assms
  by (simp add: propagate_spread_st_def propagate_spread_def alloc_def masked_store_def Let_def)

lemma time_evolution_st_refines:
  assumes "as_grid h c = Some g" "as_grid h mx = Some m" "as_fgrid h p = Some pot"
    and "time_evolution_st n c mx p thr nb h = (res, h')"
  shows "unchanged h h' \<and>
    (\<forall>e. res = Inl e \<longrightarrow> time_evolution n g m pot thr nb = Inl e) \<and>
    (\<forall>c' m'. res = Inr (c', m') \<longrightarrow>
         (\<exists>g' m''. time_evolution n g m pot thr nb = Inr (g', m'') \<and>
            as_grid h' c' = Some g' \<and> as_grid h' m' = Some m''))"
  using assms
proof (induction n arbitrary: c mx g m h)
  case 0
  then show ?case by auto
next
  case (Suc n)
  show ?case
  proof (cases "propagate_spread g pot thr nb")
    case (Inl e)
    have "res = Inl e" "h' = h"
      using Suc.prems(4) by (simp_all add: propagate_spread_st_eq [OF Suc.prems(1,3)] Inl)
    then show ?thesis by (simp add: Inl)
  next
    case (Inr new)
    let ?h1 = "h @ [Reals new]"
    let ?h2 = "?h1 @ [Reals (np_maximum m new)]"
    have st: "propagate_spread_st c p thr nb h = (Inr (length h), ?h1)"
      by (simp add: propagate_spread_st_eq [OF Suc.prems(1,3)] Inr)
    have m1: "as_grid ?h1 mx = Some m"
      using Suc.prems(2) by (rule as_grid_append_old)
    have run: "time_evolution_st n (length h) (length ?h1) p thr nb ?h2 = (res, h')"
      using Suc.prems(4) by (simp add: st m1 alloc_def)
    have a: "as_grid ?h2 (length h) = Some new"
      by (simp add: as_grid_def nth_append)
    have b: "as_grid ?h2 (length ?h1) = Some (np_maximum m new)"
      by (rule as_grid_append_new)
    have c: "as_fgrid ?h2 p = Some pot"
      using Suc.prems(3) by (intro as_fgrid_append_old)
    have eq: "time_evolution (Suc n) g m pot thr nb =
        time_evolution n new (np_maximum m new) pot thr nb"
      by (simp add: Inr)
    have "unchanged h ?h2" by (simp add: unchanged_def)
    then have "unchanged h h'"
      using Suc.IH [OF a b c run] unchanged_trans by blast
    then show ?thesis
      unfolding eq using Suc.IH [OF a b c run] by blast
  qed
qed

lemma foldl_seed_hotspot_st:
  "foldl (seed_hotspot_st rowcol tr sh v (length h)) (h @ [Reals g]) hs =
   h @ [Reals (foldl (seed_hotspot rowcol tr sh v) g hs)]"
  by (induction hs arbitrary: g) (simp_all add: seed_hotspot_st_def)

lemma initialize_grid_st_eq:
  "initialize_grid_st rowcol hs sh tr v h =
   (length h, h @ [Reals (initialize_grid rowcol hs sh tr v)])"
  by (simp add: initialize_grid_st_def alloc_def foldl_seed_hotspot_st initialize_grid_def)

lemma run_baseline_spread_st_refines:
  assumes "run_baseline_spread_st rowcol hs wu_ref wv_ref sl_ref rh_ref tr cfg n h = (res, h')"
  shows "unchanged h h' \<and>
    (\<forall>c' m'. res = Inr (c', m') \<longrightarrow>
         (\<exists>wu wv sl rh final mx.
            as_grid h wu_ref = Some wu \<and> as_grid h wv_ref = Some wv \<and>
            as_grid h sl_ref = Some sl \<and> as_grid h rh_ref = Some rh \<and>
            run_baseline_spread rowcol hs wu wv sl rh tr cfg n = Inr (final, mx) \<and>
            as_grid h' c' = Some final \<and> as_grid h' m' = Some mx))"
proof (cases "\<exists>wu wv sl rh. as_grid h wu_ref = Some wu \<and> as_grid h wv_ref = Some wv \<and>
            as_grid h sl_ref = Some sl \<and> as_grid h rh_ref = Some rh")
  case False
  then have "res = Inl BadReference \<and> h' = h"
    using assms by (auto simp: run_baseline_spread_st_def split: option.splits)
  then show ?thesis by simp
next
  case True
  then obtain wu wv sl rh where refs: "as_grid h wu_ref = Some wu" "as_grid h wv_ref = Some wv"
    "as_grid h sl_ref = Some sl" "as_grid h rh_ref = Some rh" by blast
  let ?g = "initialize_grid rowcol hs (shape wu) tr (cfg_get cfg ''seed_strength'' 1)"
  let ?h2 = "(h @ [Reals ?g]) @ [Reals ?g]"
  show ?thesis
  proof (cases "compute_spread_potential wu wv sl rh cfg")
    case (Inl e)
    then have "res = Inl e \<and> h' = ?h2"
      using assms refs
      by (auto simp: run_baseline_spread_st_def initialize_grid_st_eq alloc_def)
    then show ?thesis by (simp add: unchanged_def)
  next
    case (Inr pot)
    let ?h3 = "?h2 @ [Floats pot]"
    let ?thr = "cfg_get cfg ''spread_threshold'' (3/10)"
    let ?nb = "cfg_get cfg ''neighbors'' 8"
    have run: "time_evolution_st (nat n) (length h) (Suc (length h)) (Suc (Suc (length h)))
        ?thr ?nb ?h3 = (res, h')"
      using assms refs Inr
      by (simp add: run_baseline_spread_st_def initialize_grid_st_eq alloc_def)
    have a: "as_grid ?h3 (length h) = Some ?g"
      by (simp add: as_grid_def nth_append)
    have b: "as_grid ?h3 (Suc (length h)) = Some ?g"
      by (simp add: as_grid_def nth_append)
    have c: "as_fgrid ?h3 (Suc (Suc (length h))) = Some pot"
      by (simp add: as_fgrid_def nth_append)
    note te = time_evolution_st_refines [OF a b c run]
    have "unchanged h ?h3" by (simp add: unchanged_def)
    then have u: "unchanged h h'"
      using te unchanged_trans by blast
    have pure: "run_baseline_spread rowcol hs wu wv sl rh tr cfg n =
      time_evolution (nat n) ?g ?g pot ?thr ?nb"
      by (simp add: run_baseline_spread_def Let_def Inr)
    show ?thesis
    proof (intro conjI allI impI)
      show "unchanged h h'" by (rule u)
    next
      fix c' m' assume "res = Inr (c', m')"
      then obtain g' m'' where "time_evolution (nat n) ?g ?g pot ?thr ?nb = Inr (g', m'')"
        "as_grid h' c' = Some g'" "as_grid h' m' = Some m''"
        using te by blast
      then have "as_grid h wu_ref = Some wu \<and> as_grid h wv_ref = Some wv \<and>
            as_grid h sl_ref = Some sl \<and> as_grid h rh_ref = Some rh \<and>
            run_baseline_spread rowcol hs wu wv sl rh tr cfg n = Inr (g', m'') \<and>
            as_grid h' c' = Some g' \<and> as_grid h' m' = Some m''"
        using refs pure by simp
      then show "\<exists>wu wv sl rh final mx.
            as_grid h wu_ref = Some wu \<and> as_grid h wv_ref = Some wv \<and>
            as_grid h sl_ref = Some sl \<and> as_grid h rh_ref = Some rh \<and>
            run_baseline_spread rowcol hs wu wv sl rh tr cfg n = Inr (final, mx) \<and>
            as_grid h' c' = Some final \<and> as_grid h' m' = Some mx"
        by blast
    qed
  qed
qed

text \<open>
  Claim C10.  A call of \<open>propagate_spread\<close> leaves every array that existed before the
  call unchanged, its two arguments among them (also when both are the same array), and
  the grid it returns is a new array, holding what the function computes from the
  arguments.  A call of \<open>run_baseline_spread\<close> likewise leaves every array that existed
  before unchanged, so its weather and terrain grids hold what they held, and returns
  the grids computed from them.
\<close>

theorem arguments_not_mutated:
  "(propagate_spread_st current_grid spread_potential threshold neighbors h = (res, h') \<longrightarrow>
      unchanged h h' \<and>
      (\<forall>new_grid. res = Inr new_grid \<longrightarrow>
         new_grid = length h \<and>
         (\<exists>cur pot new.
            as_grid h current_grid = Some cur \<and> as_fgrid h spread_potential = Some pot \<and>
            propagate_spread cur pot threshold neighbors = Inr new \<and>
            as_grid h' new_grid = Some new))) \<and>
   (run_baseline_spread_st rowcol hotspots_df wind_u wind_v slope rh transform cfg n_timesteps h
        = (res2, h2) \<longrightarrow>
      unchanged h h2 \<and>
      (\<forall>final_ref max_ref. res2 = Inr (final_ref, max_ref) \<longrightarrow>
         (\<exists>wu wv sl rhg final_grid max_grid.
            as_grid h wind_u = Some wu \<and> as_grid h wind_v = Some wv \<and>
            as_grid h slope = Some sl \<and> as_grid h rh = Some rhg \<and>
            run_baseline_spread rowcol hotspots_df wu wv sl rhg transform cfg n_timesteps
              = Inr (final_grid, max_grid) \<and>
            as_grid h2 final_ref = Some final_grid \<and> as_grid h2 max_ref = Some max_grid)))"
proof (intro conjI impI)
  assume a: "propagate_spread_st current_grid spread_potential threshold neighbors h = (res, h')"
  from propagate_spread_st_frame [OF a] show "unchanged h h'" by simp
  from propagate_spread_st_frame [OF a]
  show "\<forall>new_grid. res = Inr new_grid \<longrightarrow>
         new_grid = length h \<and>
         (\<exists>cur pot new.
            as_grid h current_grid = Some cur \<and> as_fgrid h spread_potential = Some pot \<and>
            propagate_spread cur pot threshold neighbors = Inr new \<and>
            as_grid h' new_grid = Some new)"
    by auto
next
  assume b: "run_baseline_spread_st rowcol hotspots_df wind_u wind_v slope rh transform cfg
      n_timesteps h = (res2, h2)"
  from run_baseline_spread_st_refines [OF b] show "unchanged h h2" by simp
  from run_baseline_spread_st_refines [OF b]
  show "\<forall>final_ref max_ref. res2 = Inr (final_ref, max_ref) \<longrightarrow>
         (\<exists>wu wv sl rhg final_grid max_grid.
            as_grid h wind_u = Some wu \<and> as_grid h wind_v = Some wv \<and>
            as_grid h slope = Some sl \<and> as_grid h rh = Some rhg \<and>
            run_baseline_spread rowcol hotspots_df wu wv sl rhg transform cfg n_timesteps
              = Inr (final_grid, max_grid) \<and>
            as_grid h2 final_ref = Some final_grid \<and> as_grid h2 max_ref = Some max_grid)"
    by simp
qed

lemma maze_first_step:
  "propagate_spread maze_grid maze_potential (3/10) 8 = Inr [[1, 1/2, 0], [0, 0, 0], [0, 0, 0]]"
  unfolding maze_grid_def maze_potential_def by code_simp

theorem arguments_not_mutated_witness:
  "propagate_spread_st 0 1 (3/10) 8 example_store =
     (Inr 4, example_store @ [Reals [[1, 1/2, 0], [0, 0, 0], [0, 0, 0]]]) \<and>
   unchanged example_store (example_store @ [Reals [[1, 1/2, 0], [0, 0, 0], [0, 0, 0]]]) \<and>
   (\<exists>res2 h2.
      run_baseline_spread_st example_rowcol [\<lparr>longitude = 1/2, latitude = 1/2\<rparr>] 0 2 3 0
        (1, 1) Map.empty 2 example_store = (res2, h2) \<and>
      unchanged example_store h2)"
proof -
  let ?h' = "example_store @ [Reals [[1, 1/2, 0], [0, 0, 0], [0, 0, 0]]]"
  have a: "propagate_spread_st 0 1 (3/10) 8 example_store = (Inr 4, ?h')"
    using propagate_spread_st_eq [of example_store 0 maze_grid 1 maze_potential "3/10" 8]
    by (simp add: maze_first_step) (simp add: example_store_def as_grid_def as_fgrid_def)
  obtain res2 h2 where b:
    "run_baseline_spread_st example_rowcol [\<lparr>longitude = 1/2, latitude = 1/2\<rparr>] 0 2 3 0
        (1, 1) Map.empty 2 example_store = (res2, h2)"
    by (cases "run_baseline_spread_st example_rowcol [\<lparr>longitude = 1/2, latitude = 1/2\<rparr>]
        0 2 3 0 (1, 1) Map.empty 2 example_store")
  from arguments_not_mutated [where current_grid = 0 and spread_potential = 1
      and threshold = "3/10" and neighbors = 8 and h = example_store and res = "Inr 4"
      and h' = ?h' and rowcol = example_rowcol
      and hotspots_df = "[\<lparr>longitude = 1/2, latitude = 1/2\<rparr>]"
      and wind_u = 0 and wind_v = 2 and slope = 3 and rh = 0 and transform = "(1, 1)"
      and cfg = Map.empty and n_timesteps = 2 and ?res2.0 = res2 and ?h2.0 = h2] a b
  show ?thesis by blast
qed

section \<open>C3: propagation keeps what has burned\<close>








end
